theory Spec2Isabelle
  imports Main "HOL-Library.Sublist"
begin

section \<open>Go strings and the standard-library functions that dns.go calls\<close>

text \<open>
  A Go string is a sequence of bytes, here a \<^typ>\<open>string\<close>; a byte is read as a
  natural number below 256 with \<^const>\<open>of_char\<close>. The functions of this section are
  not code of the repository: they model the parts of Go's \<^verbatim>\<open>strings\<close>,
  \<^verbatim>\<open>strconv\<close>, \<^verbatim>\<open>net\<close>, \<^verbatim>\<open>net/netip\<close> and \<^verbatim>\<open>net/url\<close> packages that
  \<^verbatim>\<open>dns/dns.go\<close> calls, following the standard library's sources (Go 1.22, 64-bit
  \<^verbatim>\<open>int\<close>). Only the fields of \<^verbatim>\<open>url.URL\<close> that dns.go reads are kept.
\<close>

definition isdigit :: "char \<Rightarrow> bool" where
  "isdigit c = (48 \<le> (of_char c :: nat) \<and> (of_char c :: nat) \<le> 57)"

definition isalpha :: "char \<Rightarrow> bool" where
  "isalpha c = ((97 \<le> (of_char c :: nat) \<and> (of_char c :: nat) \<le> 122)
              \<or> (65 \<le> (of_char c :: nat) \<and> (of_char c :: nat) \<le> 90))"

definition ishex :: "char \<Rightarrow> bool" where
  "ishex c = (isdigit c \<or> (97 \<le> (of_char c :: nat) \<and> (of_char c :: nat) \<le> 102)
                        \<or> (65 \<le> (of_char c :: nat) \<and> (of_char c :: nat) \<le> 70))"

definition unhex :: "char \<Rightarrow> nat" where
  "unhex c = (if isdigit c then of_char c - 48
              else if 97 \<le> (of_char c :: nat) \<and> (of_char c :: nat) \<le> 102 then of_char c - 97 + 10
              else if 65 \<le> (of_char c :: nat) \<and> (of_char c :: nat) \<le> 70 then of_char c - 65 + 10
              else 0)"

text \<open>The table \<^verbatim>\<open>"0123456789abcdef"\<close> indexed by a value below 16.\<close>

definition digits :: "nat \<Rightarrow> char" where
  "digits k = (if k < 10 then char_of (48 + k) else char_of (87 + k))"

definition tolower :: "char \<Rightarrow> char" where
  "tolower c = (if 65 \<le> (of_char c :: nat) \<and> (of_char c :: nat) \<le> 90
                then char_of ((of_char c :: nat) + 32) else c)"

subsection \<open>strings\<close>

text \<open>\<^verbatim>\<open>strings.Index\<close>: the index of the first occurrence, or -1.\<close>

fun strings_Index :: "string \<Rightarrow> string \<Rightarrow> int" where
  "strings_Index [] substr = (if substr = [] then 0 else - 1)"
| "strings_Index (c # s) substr =
     (if prefix substr (c # s) then 0
      else (let i = strings_Index s substr in if i < 0 then - 1 else i + 1))"

text \<open>\<^verbatim>\<open>strings.HasPrefix\<close> and \<^verbatim>\<open>strings.HasSuffix\<close>.\<close>

definition strings_HasPrefix :: "string \<Rightarrow> string \<Rightarrow> bool" where
  "strings_HasPrefix s p = prefix p s"

definition strings_HasSuffix :: "string \<Rightarrow> string \<Rightarrow> bool" where
  "strings_HasSuffix s p = suffix p s"

text \<open>\<^verbatim>\<open>strings.Cut\<close> at a one-byte separator: the text before the first separator and
  the text after it (empty when there is none).\<close>

definition cut_before :: "char \<Rightarrow> string \<Rightarrow> string" where
  "cut_before c s = takeWhile (\<lambda>x. x \<noteq> c) s"

definition cut_after :: "char \<Rightarrow> string \<Rightarrow> string" where
  "cut_after c s = drop 1 (dropWhile (\<lambda>x. x \<noteq> c) s)"

text \<open>The text before and after the last occurrence of a byte
  (\<^verbatim>\<open>s[:i]\<close> and \<^verbatim>\<open>s[i+1:]\<close> for \<^verbatim>\<open>i = strings.LastIndex(s, c)\<close>, when \<^verbatim>\<open>i \<ge> 0\<close>).\<close>

definition before_last :: "char \<Rightarrow> string \<Rightarrow> string" where
  "before_last c s = rev (drop 1 (dropWhile (\<lambda>x. x \<noteq> c) (rev s)))"

definition after_last :: "char \<Rightarrow> string \<Rightarrow> string" where
  "after_last c s = rev (takeWhile (\<lambda>x. x \<noteq> c) (rev s))"

subsection \<open>strconv\<close>

definition dec_value :: "string \<Rightarrow> nat" where
  "dec_value ds = foldl (\<lambda>n c. n * 10 + ((of_char c :: nat) - 48)) 0 ds"

text \<open>\<^verbatim>\<open>strconv.Atoi\<close>: an optional sign, at least one decimal digit, nothing else, and a
  value that fits a 64-bit \<^verbatim>\<open>int\<close>; \<open>None\<close> is the returned error.\<close>

definition strconv_Atoi :: "string \<Rightarrow> int option" where
  "strconv_Atoi s =
     (let ds = (if prefix ''-'' s \<or> prefix ''+'' s then tl s else s) in
      if ds = [] \<or> \<not> list_all isdigit ds then None
      else (let n = (if prefix ''-'' s then - int (dec_value ds) else int (dec_value ds)) in
            if n < - (2 ^ 63) \<or> 2 ^ 63 - 1 < n then None else Some n))"

function uitoa :: "nat \<Rightarrow> string" where
  "uitoa n = (if n < 10 then [digits n] else uitoa (n div 10) @ [digits (n mod 10)])"
  by pat_completeness auto
termination
  by (relation "measure id") auto

declare uitoa.simps [simp del]

definition strconv_Itoa :: "int \<Rightarrow> string" where
  "strconv_Itoa i = (if i < 0 then ''-'' @ uitoa (nat (- i)) else uitoa (nat i))"

subsection \<open>net: IP addresses\<close>

text \<open>\<^verbatim>\<open>net.IP\<close> is a byte slice; \<^verbatim>\<open>nil\<close> and the empty slice are both \<open>[]\<close>
  (dns.go only reads its length).\<close>

type_synonym IP = "nat list"

text \<open>\<^verbatim>\<open>netip.parseIPv4Fields\<close>: the loop over the bytes, with the current octet
  \<open>val\<close>, its number of digits \<open>digLen\<close> and the octets completed so far (\<open>pos\<close> is their
  number). The index \<open>i\<close> is 0 or follows a dot exactly when \<open>digLen\<close> is 0.\<close>

fun parseIPv4Fields :: "string \<Rightarrow> nat \<Rightarrow> nat \<Rightarrow> nat list \<Rightarrow> nat list option" where
  "parseIPv4Fields [] val digLen fields =
     (if length fields < 3 then None else Some (fields @ [val]))"
| "parseIPv4Fields (c # s) val digLen fields =
     (if isdigit c then
        (if digLen = 1 \<and> val = 0 then None
         else (let val' = val * 10 + ((of_char c :: nat) - 48) in
               if val' > 255 then None else parseIPv4Fields s val' (digLen + 1) fields))
      else if c = CHR ''.'' then
        (if digLen = 0 \<or> s = [] then None
         else if length fields = 3 then None
         else parseIPv4Fields s 0 0 (fields @ [val]))
      else None)"

text \<open>The hexadecimal field at the head of an IPv6 text: its value and its number of
  digits; more than four digits is an error.\<close>

fun hexfield :: "string \<Rightarrow> nat \<Rightarrow> nat \<Rightarrow> (nat \<times> nat) option" where
  "hexfield [] acc off = Some (acc, off)"
| "hexfield (c # s) acc off =
     (if ishex c then
        (let acc' = acc * 16 + unhex c in
         if off > 3 then None else if acc' > 65535 then None else hexfield s acc' (off + 1))
      else Some (acc, off))"

text \<open>The main loop of \<^verbatim>\<open>netip.parseIPv6\<close>. \<open>ip\<close> holds the bytes written so far (the
  index \<open>i\<close> of the source is its length); the result is the unread text, the bytes and
  the position of the ellipsis.\<close>

function parseIPv6_loop :: "string \<Rightarrow> nat list \<Rightarrow> nat option \<Rightarrow> (string \<times> nat list \<times> nat option) option" where
  "parseIPv6_loop s ip ellipsis =
     (if length ip < 16 then
        (case hexfield s 0 0 of
           None \<Rightarrow> None
         | Some (acc, off) \<Rightarrow>
             if off = 0 then None
             else if off < length s \<and> s ! off = CHR ''.'' then
               (if ellipsis = None \<and> length ip \<noteq> 12 then None
                else if length ip + 4 > 16 then None
                else (case parseIPv4Fields s 0 0 [] of
                        None \<Rightarrow> None
                      | Some f \<Rightarrow> Some ([], ip @ f, ellipsis)))
             else
               (let ip' = ip @ [acc div 256, acc mod 256]; s1 = drop off s in
                if s1 = [] then Some (s1, ip', ellipsis)
                else if hd s1 \<noteq> CHR '':'' then None
                else if length s1 = 1 then None
                else if hd (tl s1) = CHR '':'' then
                  (if ellipsis \<noteq> None then None
                   else if tl (tl s1) = [] then Some ([], ip', Some (length ip'))
                   else parseIPv6_loop (tl (tl s1)) ip' (Some (length ip')))
                else parseIPv6_loop (tl s1) ip' ellipsis))
      else Some (s, ip, ellipsis))"
  by pat_completeness auto
termination
  by (relation "measure (\<lambda>(s, ip, e). 16 - length ip)") auto

declare parseIPv6_loop.simps [simp del]

text \<open>\<^verbatim>\<open>netip.parseIPv6\<close>, for a text without a zone (\<^verbatim>\<open>net.ParseIP\<close> refuses zones).\<close>

definition parseIPv6 :: "string \<Rightarrow> nat list option" where
  "parseIPv6 s0 =
     (let lead = (length s0 \<ge> 2 \<and> s0 ! 0 = CHR '':'' \<and> s0 ! 1 = CHR '':'');
          s = (if lead then drop 2 s0 else s0);
          ellipsis0 = (if lead then Some 0 else None)
      in if lead \<and> s = [] then Some (replicate 16 0)
         else (case parseIPv6_loop s [] ellipsis0 of
                 None \<Rightarrow> None
               | Some (rest, ip, ellipsis) \<Rightarrow>
                   if rest \<noteq> [] then None
                   else if length ip < 16 then
                     (case ellipsis of
                        None \<Rightarrow> None
                      | Some e \<Rightarrow> Some (take e ip @ replicate (16 - length ip) 0 @ drop e ip))
                   else if ellipsis \<noteq> None then None
                   else Some ip))"

text \<open>\<^verbatim>\<open>net.ParseIP\<close>: the 16-byte form of the address, or \<^verbatim>\<open>nil\<close>. The first of
  \<^verbatim>\<open>.\<close>, \<^verbatim>\<open>:\<close> and \<^verbatim>\<open>%\<close> in the text selects the parser.\<close>

definition v4InV6Prefix :: "nat list" where
  "v4InV6Prefix = [0, 0, 0, 0, 0, 0, 0, 0, 0, 0, 255, 255]"

definition net_ParseIP :: "string \<Rightarrow> IP" where
  "net_ParseIP s =
     (case dropWhile (\<lambda>c. c \<noteq> CHR ''.'' \<and> c \<noteq> CHR '':'' \<and> c \<noteq> CHR ''%'') s of
        [] \<Rightarrow> []
      | c # _ \<Rightarrow>
          if c = CHR ''.'' then
            (case parseIPv4Fields s 0 0 [] of None \<Rightarrow> [] | Some f \<Rightarrow> v4InV6Prefix @ f)
          else if c = CHR '':'' then
            (if CHR ''%'' \<in> set s then []
             else (case parseIPv6 s of None \<Rightarrow> [] | Some ip \<Rightarrow> ip))
          else [])"

text \<open>\<^verbatim>\<open>IP.To4\<close>, \<^verbatim>\<open>netip.appendDecimal\<close>, \<^verbatim>\<open>netip.appendHex\<close> and \<^verbatim>\<open>IP.String\<close>.\<close>

definition To4 :: "IP \<Rightarrow> IP" where
  "To4 ip = (if length ip = 4 then ip
             else if length ip = 16 \<and> take 12 ip = v4InV6Prefix then drop 12 ip
             else [])"

definition appendDecimal :: "nat \<Rightarrow> string" where
  "appendDecimal x =
     (if x \<ge> 100 then [digits (x div 100)] else []) @
     (if x \<ge> 10 then [digits (x div 10 mod 10)] else []) @
     [digits (x mod 10)]"

definition appendHex :: "nat \<Rightarrow> string" where
  "appendHex x =
     (if x \<ge> 4096 then [digits (x div 4096)] else []) @
     (if x \<ge> 256 then [digits (x div 256 mod 16)] else []) @
     (if x \<ge> 16 then [digits (x div 16 mod 16)] else []) @
     [digits (x mod 16)]"

fun v6u16 :: "nat list \<Rightarrow> nat list" where
  "v6u16 (hi # lo # bs) = (hi * 256 + lo) # v6u16 bs"
| "v6u16 _ = []"

text \<open>The longest run of at least two zero fields, the first among equals:
  \<open>(zeroStart, zeroEnd)\<close>, and \<open>(255, 255)\<close> when there is none.\<close>

definition zero_span :: "nat list \<Rightarrow> nat \<times> nat" where
  "zero_span gs =
     foldl (\<lambda>(zeroStart, zeroEnd) i.
              (let j = i + length (takeWhile (\<lambda>g. g = 0) (drop i gs)); l = j - i in
               if l \<ge> 2 \<and> l > zeroEnd - zeroStart then (i, j) else (zeroStart, zeroEnd)))
           (255, 255) [0..<8]"

fun join_colon :: "string list \<Rightarrow> string" where
  "join_colon [] = []"
| "join_colon [x] = x"
| "join_colon (x # y # zs) = x @ '':'' @ join_colon (y # zs)"

text \<open>The second loop of \<^verbatim>\<open>netip.Addr.appendTo6\<close> writes the fields before the run
  separated by colons, \<^verbatim>\<open>::\<close> for the run, and the fields after it.\<close>

definition string6 :: "nat list \<Rightarrow> string" where
  "string6 gs =
     (case zero_span gs of (zeroStart, zeroEnd) \<Rightarrow>
        if zeroStart < 8 then
          join_colon (map appendHex (take zeroStart gs)) @ ''::'' @
          join_colon (map appendHex (drop zeroEnd gs))
        else join_colon (map appendHex gs))"

definition hexString :: "nat list \<Rightarrow> string" where
  "hexString b = concat (map (\<lambda>x. [digits (x div 16), digits (x mod 16)]) b)"

definition IP_String :: "IP \<Rightarrow> string" where
  "IP_String ip =
     (if length ip = 0 then ''<nil>''
      else if length ip \<noteq> 4 \<and> length ip \<noteq> 16 then ''?'' @ hexString ip
      else (case To4 ip of
              [a, b, c, d] \<Rightarrow>
                appendDecimal a @ ''.'' @ appendDecimal b @ ''.'' @ appendDecimal c @ ''.'' @ appendDecimal d
            | _ \<Rightarrow> string6 (v6u16 ip)))"

definition net_JoinHostPort :: "string \<Rightarrow> string \<Rightarrow> string" where
  "net_JoinHostPort host port =
     (if CHR '':'' \<in> set host then ''['' @ host @ '']:'' @ port else host @ '':'' @ port)"

subsection \<open>net/url\<close>

record URL =
  Scheme :: string
  Host :: string

definition stringContainsCTLByte :: "string \<Rightarrow> bool" where
  "stringContainsCTLByte s = list_ex (\<lambda>c. (of_char c :: nat) < 32 \<or> (of_char c :: nat) = 127) s"

text \<open>\<^verbatim>\<open>getScheme\<close>: \<open>pre\<close> is the text already read (\<^verbatim>\<open>rawURL[:i]\<close>); \<open>None\<close> is the
  error "missing protocol scheme".\<close>

fun getScheme_loop :: "string \<Rightarrow> string \<Rightarrow> string \<Rightarrow> (string \<times> string) option" where
  "getScheme_loop rawURL pre [] = Some ([], rawURL)"
| "getScheme_loop rawURL pre (c # s) =
     (if isalpha c then getScheme_loop rawURL (pre @ [c]) s
      else if isdigit c \<or> c = CHR ''+'' \<or> c = CHR ''-'' \<or> c = CHR ''.'' then
        (if pre = [] then Some ([], rawURL) else getScheme_loop rawURL (pre @ [c]) s)
      else if c = CHR '':'' then
        (if pre = [] then None else Some (pre, s))
      else Some ([], rawURL))"

definition getScheme :: "string \<Rightarrow> (string \<times> string) option" where
  "getScheme rawURL = getScheme_loop rawURL [] rawURL"

text \<open>\<^verbatim>\<open>shouldEscape(c, encodeHost)\<close>, the same for \<^verbatim>\<open>encodeZone\<close>.\<close>

definition shouldEscape_host :: "char \<Rightarrow> bool" where
  "shouldEscape_host c =
     (\<not> (isalpha c \<or> isdigit c) \<and> c \<notin> set ''!$&'' \<and> c \<noteq> CHR 0x27 \<and> c \<notin> set ''()*+,;=:[]<>''
      \<and> c \<noteq> CHR 0x22 \<and> c \<notin> set ''-_.~'')"

text \<open>\<^verbatim>\<open>unescape\<close> in the modes that only check the escapes
  (path, fragment, user and password): every \<^verbatim>\<open>%\<close> is followed by two hex digits.\<close>

fun valid_escapes :: "string \<Rightarrow> bool" where
  "valid_escapes [] = True"
| "valid_escapes (c # s) =
     (if c = CHR ''%'' then
        (case s of a # b # r \<Rightarrow> ishex a \<and> ishex b \<and> valid_escapes r | _ \<Rightarrow> False)
      else valid_escapes s)"

text \<open>\<^verbatim>\<open>unescape(s, encodeHost)\<close> and \<^verbatim>\<open>unescape(s, encodeZone)\<close> (\<open>zone\<close> true):
  the unescaped text, or \<open>None\<close> for an EscapeError or InvalidHostError.\<close>

fun unescape_host :: "bool \<Rightarrow> string \<Rightarrow> string option" where
  "unescape_host zone [] = Some []"
| "unescape_host zone (c # s) =
     (if c = CHR ''%'' then
        (case s of
           a # b # r \<Rightarrow>
             if \<not> ishex a \<or> \<not> ishex b then None
             else if \<not> zone \<and> unhex a < 8 \<and> [a, b] \<noteq> ''25'' then None
             else if zone \<and> [a, b] \<noteq> ''25'' \<and> unhex a * 16 + unhex b \<noteq> 32
                     \<and> shouldEscape_host (char_of (unhex a * 16 + unhex b)) then None
             else map_option (\<lambda>t. char_of (unhex a * 16 + unhex b) # t) (unescape_host zone r)
         | _ \<Rightarrow> None)
      else if (of_char c :: nat) < 128 \<and> shouldEscape_host c then None
      else map_option (\<lambda>t. c # t) (unescape_host zone s))"

definition validOptionalPort :: "string \<Rightarrow> bool" where
  "validOptionalPort port =
     (case port of [] \<Rightarrow> True | c # ds \<Rightarrow> c = CHR '':'' \<and> list_all isdigit ds)"

text \<open>The three parts \<^verbatim>\<open>host[:zone]\<close>, \<^verbatim>\<open>host[zone:i]\<close> and \<^verbatim>\<open>host[i:]\<close> of a
  bracketed host with a zone are unescaped one by one and concatenated.\<close>

definition parseHost :: "string \<Rightarrow> string option" where
  "parseHost host =
     (if prefix ''['' host then
        (if CHR '']'' \<notin> set host then None
         else if \<not> validOptionalPort (after_last (CHR '']'') host) then None
         else (let i = length (before_last (CHR '']'') host);
                   zone = strings_Index (take i host) ''%25'' in
               if zone \<ge> 0 then
                 (case (unescape_host False (take (nat zone) host),
                        unescape_host True (drop (nat zone) (take i host)),
                        unescape_host False (drop i host)) of
                    (Some host1, Some host2, Some host3) \<Rightarrow> Some (host1 @ host2 @ host3)
                  | _ \<Rightarrow> None)
               else unescape_host False host))
      else if CHR '':'' \<in> set host \<and> \<not> validOptionalPort (CHR '':'' # after_last (CHR '':'') host) then None
      else unescape_host False host)"

definition validUserinfo :: "string \<Rightarrow> bool" where
  "validUserinfo s =
     list_all (\<lambda>c. isalpha c \<or> isdigit c \<or> c \<in> set ''-._:~!$&'' \<or> c = CHR 0x27
                    \<or> c \<in> set ''()*+,;=%@'') s"

text \<open>\<^verbatim>\<open>parseAuthority\<close>: the host, when the host and the user information are valid.\<close>

definition parseAuthority :: "string \<Rightarrow> string option" where
  "parseAuthority authority =
     (if CHR ''@'' \<notin> set authority then parseHost authority
      else (case parseHost (after_last (CHR ''@'') authority) of
              None \<Rightarrow> None
            | Some host \<Rightarrow>
                (let userinfo = before_last (CHR ''@'') authority in
                 if \<not> validUserinfo userinfo then None
                 else if \<not> valid_escapes (cut_before (CHR '':'') userinfo) then None
                 else if \<not> valid_escapes (cut_after (CHR '':'') userinfo) then None
                 else Some host)))"

text \<open>\<^verbatim>\<open>parse(rawURL, false)\<close>.\<close>

definition url_parse :: "string \<Rightarrow> URL option" where
  "url_parse rawURL =
     (if stringContainsCTLByte rawURL then None
      else if rawURL = ''*'' then Some \<lparr>Scheme = [], Host = []\<rparr>
      else (case getScheme rawURL of
              None \<Rightarrow> None
            | Some (scheme0, rest0) \<Rightarrow>
                (let scheme = map tolower scheme0;
                     rest = (if suffix ''?'' rest0 \<and> count_list rest0 (CHR ''?'') = 1
                             then butlast rest0 else cut_before (CHR ''?'') rest0)
                 in if \<not> prefix ''/'' rest \<and> scheme \<noteq> [] then Some \<lparr>Scheme = scheme, Host = []\<rparr>
                    else if \<not> prefix ''/'' rest \<and> CHR '':'' \<in> set (cut_before (CHR ''/'') rest) then None
                    else if (scheme \<noteq> [] \<or> \<not> prefix ''///'' rest) \<and> prefix ''//'' rest then
                      (let authority = cut_before (CHR ''/'') (drop 2 rest);
                           path = dropWhile (\<lambda>c. c \<noteq> CHR ''/'') (drop 2 rest) in
                       case parseAuthority authority of
                         None \<Rightarrow> None
                       | Some host \<Rightarrow>
                           if valid_escapes path then Some \<lparr>Scheme = scheme, Host = host\<rparr> else None)
                    else if valid_escapes rest then Some \<lparr>Scheme = scheme, Host = []\<rparr>
                    else None)))"

text \<open>\<^verbatim>\<open>url.Parse\<close>: the fragment is cut off first and must unescape.\<close>

definition url_Parse :: "string \<Rightarrow> URL option" where
  "url_Parse rawURL =
     (case url_parse (cut_before (CHR ''#'') rawURL) of
        None \<Rightarrow> None
      | Some u \<Rightarrow> if valid_escapes (cut_after (CHR ''#'') rawURL) then Some u else None)"

text \<open>\<^verbatim>\<open>splitHostPort\<close>, \<^verbatim>\<open>URL.Hostname\<close> and \<^verbatim>\<open>URL.Port\<close>.\<close>

definition splitHostPort :: "string \<Rightarrow> string \<times> string" where
  "splitHostPort hostPort =
     (let (host, port) =
            (if CHR '':'' \<in> set hostPort \<and> validOptionalPort (CHR '':'' # after_last (CHR '':'') hostPort)
             then (before_last (CHR '':'') hostPort, after_last (CHR '':'') hostPort)
             else (hostPort, []))
      in (if prefix ''['' host \<and> suffix '']'' host then butlast (tl host) else host, port))"

definition Hostname :: "URL \<Rightarrow> string" where
  "Hostname u = fst (splitHostPort (Host u))"

definition Port_of :: "URL \<Rightarrow> string" where
  "Port_of u = snd (splitHostPort (Host u))"

section \<open>The server descriptor and its parser (dns/dns.go)\<close>

datatype error =
    UrlParseError string
  | NotSupport string string
  | IpInvalid string string
  | PortInvalid string string
  | MappingEmpty string "string list" "string list"
  | MappingIpInvalid string "string list" "string list" string
  | ContextCanceled
  | External string

record DnsServer =
  Network :: string
  IP :: IP
  Port :: int

text \<open>\<^verbatim>\<open>ParseDnsServer\<close>; \<open>Inl\<close> is the returned error.\<close>

definition ParseDnsServer :: "string \<Rightarrow> error + DnsServer" where
  "ParseDnsServer value0 =
     (let value = (if strings_Index value0 ''://'' < 0 then ''udp://'' @ value0 else value0) in
      case url_Parse value of
        None \<Rightarrow> Inl (UrlParseError value)
      | Some u \<Rightarrow>
          if Scheme u \<noteq> ''udp'' then Inl (NotSupport value (Scheme u))
          else (let ip = net_ParseIP (Hostname u) in
                if length ip = 0 then Inl (IpInvalid value (Hostname u))
                else if length (Port_of u) = 0 then Inr \<lparr>Network = Scheme u, IP = ip, Port = 53\<rparr>
                else (case strconv_Atoi (Port_of u) of
                        None \<Rightarrow> Inl (PortInvalid value (Port_of u))
                      | Some p \<Rightarrow> Inr \<lparr>Network = Scheme u, IP = ip, Port = p\<rparr>)))"

text \<open>\<^verbatim>\<open>DnsServer.Addr\<close> and \<^verbatim>\<open>DnsServer.String\<close>.\<close>

definition Addr :: "DnsServer \<Rightarrow> string" where
  "Addr d = net_JoinHostPort (IP_String (IP d)) (strconv_Itoa (Port d))"

definition String :: "DnsServer \<Rightarrow> string" where
  "String d = Network d @ ''://'' @ Addr d"

section \<open>The race resolver\<close>

text \<open>
  What a query sees of the outside world is collected in \<open>ctx\<close>, the model of the
  \<^verbatim>\<open>context.Context\<close> argument together with the network during the call:
  \<^item> \<open>exchange i addr domain\<close> is what \<^verbatim>\<open>dns.Exchange(m, addr)\<close> returns to the goroutine
    started for the \<open>i\<close>-th server, for the question (\<^verbatim>\<open>dns.Fqdn(domain)\<close>, type A,
    recursion desired): the pair \<^verbatim>\<open>(r, err)\<close>, where \<open>None\<close> is \<^verbatim>\<open>nil\<close>;
  \<^item> \<open>schedule\<close> is the order in which the channel operations of the \<^verbatim>\<open>select\<close>
    become ready: \<open>Finished i\<close> when the goroutine of the \<open>i\<close>-th server comes back from
    \<^verbatim>\<open>dns.Exchange\<close>, \<open>CtxDone\<close> when \<^verbatim>\<open>ctx.Done()\<close> is closed.
\<close>

datatype RR = A IP | OtherRR

record Msg =
  Answer :: "RR list"

datatype event = Finished nat | CtxDone

record ctx =
  exchange :: "nat \<Rightarrow> string \<Rightarrow> string \<Rightarrow> Msg option \<times> error option"
  schedule :: "event list"

text \<open>A call returns, panics (a nil dereference, an index out of range or a call of a nil
  function; in a goroutine it ends the process), or blocks for ever.\<close>

datatype 'a outcome = Return 'a | Panic | Blocked

text \<open>The loop over \<^verbatim>\<open>r.Answer\<close> keeps the addresses of the A records.\<close>

fun answer_ips :: "RR list \<Rightarrow> IP list" where
  "answer_ips [] = []"
| "answer_ips (A a # rs) = a # answer_ips rs"
| "answer_ips (OtherRR # rs) = answer_ips rs"

text \<open>The body of the goroutine for one server, up to its send on the channel. The error
  of the exchange only builds a log entry; \<^verbatim>\<open>r.Answer\<close> is read whatever the error, and
  dereferences \<^verbatim>\<open>r\<close>.\<close>

definition attempt :: "ctx \<Rightarrow> string \<Rightarrow> nat \<Rightarrow> DnsServer \<Rightarrow> (IP list \<times> DnsServer) outcome" where
  "attempt c domain i s =
     (case exchange c i (Addr s) domain of
        (None, err) \<Rightarrow> Panic
      | (Some r, err) \<Rightarrow> Return (answer_ips (Answer r), s))"

definition zero_DnsServer :: DnsServer where
  "zero_DnsServer = \<lparr>Network = [], IP = [], Port = 0\<rparr>"

text \<open>The \<^verbatim>\<open>select\<close>: the first event that is ready decides. An event of a goroutine that
  was never started (no such server) does not exist and is skipped.\<close>

fun race :: "ctx \<Rightarrow> string \<Rightarrow> DnsServer list \<Rightarrow> event list
    \<Rightarrow> (IP list \<times> DnsServer \<times> error option) outcome" where
  "race c domain servers [] = Blocked"
| "race c domain servers (CtxDone # es) = Return ([], zero_DnsServer, Some ContextCanceled)"
| "race c domain servers (Finished i # es) =
     (if i < length servers then
        (case attempt c domain i (servers ! i) of
           Return (ips, s) \<Rightarrow> Return (ips, s, None)
         | Panic \<Rightarrow> Panic
         | Blocked \<Rightarrow> Blocked)
      else race c domain servers es)"

definition ResolveDomain :: "ctx \<Rightarrow> string \<Rightarrow> DnsServer list
    \<Rightarrow> (IP list \<times> DnsServer \<times> error option) outcome" where
  "ResolveDomain c domain servers = race c domain servers (schedule c)"

section \<open>Handlers\<close>

definition TypSystem :: string where "TypSystem = ''system''"
definition TypStatic :: string where "TypStatic = ''static''"
definition TypDynamic :: string where "TypDynamic = ''dynamic''"

text \<open>The record \<^verbatim>\<open>DNS\<close>. Its field \<^verbatim>\<open>IP\<close> is \<open>DNS_IP\<close> here (the name is taken by
  \<^verbatim>\<open>DnsServer.IP\<close>); \<^verbatim>\<open>ExpireAt\<close> is a time, 0 for the zero time.\<close>

record DNS =
  Typ :: string
  MappingDomain :: string
  Domain :: string
  DNS_IP :: "IP list"
  Server :: "DnsServer list"
  CurrentServer :: DnsServer
  CurrentIP :: IP
  CurrentCountry :: string
  ExpireAt :: int

text \<open>\<^verbatim>\<open>DNS.IsNil\<close>.\<close>

definition IsNil :: "DNS \<Rightarrow> bool" where
  "IsNil d = (length (Domain d) = 0)"

text \<open>
  \<^verbatim>\<open>type Handle func(ctx context.Context, domain string) *DNS\<close>. A handler may change
  state outside this file (the fallback and the cache do), so it takes the state \<open>'w\<close> of
  that world and returns the new one; the record it returns is a pointer, \<open>None\<close> for
  \<^verbatim>\<open>nil\<close>. A value of type \<^verbatim>\<open>Handle\<close> may itself be \<^verbatim>\<open>nil\<close>: calling it panics.
\<close>

type_synonym 'w Handle = "ctx \<Rightarrow> string \<Rightarrow> 'w \<Rightarrow> (DNS option \<times> 'w) outcome"

definition call :: "'w Handle option \<Rightarrow> 'w Handle" where
  "call h c domain w = (case h of None \<Rightarrow> Panic | Some f \<Rightarrow> f c domain w)"

text \<open>The function the variable \<^verbatim>\<open>SelectIP\<close> is initialised with (the variable can be
  assigned another policy; the model keeps this one).\<close>

definition SelectIP :: "IP list \<Rightarrow> IP" where
  "SelectIP ips = (if length ips > 0 then ips ! 0 else [])"

text \<open>The loop \<^verbatim>\<open>for i, v := range servers { serverAddrs[i], err = ParseDnsServer(v) ... }\<close>
  of both constructors: the first error ends it.\<close>

fun parse_servers :: "string list \<Rightarrow> error + DnsServer list" where
  "parse_servers [] = Inr []"
| "parse_servers (v # vs) =
     (case ParseDnsServer v of
        Inl err \<Rightarrow> Inl err
      | Inr s \<Rightarrow> (case parse_servers vs of Inl err \<Rightarrow> Inl err | Inr ss \<Rightarrow> Inr (s # ss)))"

text \<open>
  \<^verbatim>\<open>GeoLookUp\<close>, \<^verbatim>\<open>InitGeoIP\<close> and \<^verbatim>\<open>newCacheHandle\<close> belong to other files of the
  package; they are parameters here: the country of an address, the error of the
  initialisation (if any), and the constructor of the cache handler.
\<close>

record 'w package =
  InitGeoIP :: "error option"
  GeoLookUp :: "IP \<Rightarrow> string"
  newCacheHandle :: "'w Handle option \<Rightarrow> 'w Handle option \<times> error option"

text \<open>\<^verbatim>\<open>newGeneralHandle\<close>. The closure fills the reply from the race, and when the race
  returned an error it calls \<^verbatim>\<open>next\<close> and drops what \<^verbatim>\<open>next\<close> returns.\<close>

definition generalHandle :: "(IP \<Rightarrow> string) \<Rightarrow> DnsServer list \<Rightarrow> 'w Handle option \<Rightarrow> 'w Handle" where
  "generalHandle geo serverAddrs next c domain w =
     (case ResolveDomain c domain serverAddrs of
        Panic \<Rightarrow> Panic
      | Blocked \<Rightarrow> Blocked
      | Return (ips, server, err) \<Rightarrow>
          (let reply = \<lparr>Typ = TypDynamic, MappingDomain = [], Domain = domain, DNS_IP = ips,
                        Server = [], CurrentServer = server, CurrentIP = SelectIP ips,
                        CurrentCountry = geo (SelectIP ips), ExpireAt = 0\<rparr>
           in case err of
                None \<Rightarrow> Return (Some reply, w)
              | Some e \<Rightarrow>
                  (case call next c domain w of
                     Return (discarded, w') \<Rightarrow> Return (Some reply, w')
                   | Panic \<Rightarrow> Panic
                   | Blocked \<Rightarrow> Blocked)))"

definition newGeneralHandle :: "(IP \<Rightarrow> string) \<Rightarrow> string list \<Rightarrow> 'w Handle option
    \<Rightarrow> 'w Handle option \<times> error option" where
  "newGeneralHandle geo servers next =
     (case parse_servers servers of
        Inl err \<Rightarrow> (None, Some err)
      | Inr serverAddrs \<Rightarrow> (Some (generalHandle geo serverAddrs next), None))"

text \<open>The test at the head of both mapping closures:
  \<^verbatim>\<open>if mappingDomain[0] == '*' && strings.HasSuffix(domain, mappingDomain[1:]) {} else if
  mappingDomain == domain {} else { return next(ctx, domain) }\<close>.
  \<open>None\<close> is the panic of \<^verbatim>\<open>mappingDomain[0]\<close> on the empty string.\<close>

definition mapping_match :: "string \<Rightarrow> string \<Rightarrow> bool option" where
  "mapping_match mappingDomain domain =
     (case mappingDomain of
        [] \<Rightarrow> None
      | c # rest \<Rightarrow>
          if c = CHR ''*'' \<and> strings_HasSuffix domain rest then Some True
          else if mappingDomain = domain then Some True
          else Some False)"

text \<open>The closure of a rule with servers.\<close>

definition mappingServerHandle :: "string \<Rightarrow> DnsServer list \<Rightarrow> 'w Handle option \<Rightarrow> 'w Handle" where
  "mappingServerHandle mappingDomain serverAddrs next c domain w =
     (case mapping_match mappingDomain domain of
        None \<Rightarrow> Panic
      | Some False \<Rightarrow> call next c domain w
      | Some True \<Rightarrow>
          (case ResolveDomain c domain serverAddrs of
             Panic \<Rightarrow> Panic
           | Blocked \<Rightarrow> Blocked
           | Return (ips, server, err) \<Rightarrow>
               Return (Some \<lparr>Typ = TypStatic, MappingDomain = mappingDomain, Domain = domain,
                             DNS_IP = ips, Server = serverAddrs, CurrentServer = server,
                             CurrentIP = [], CurrentCountry = [], ExpireAt = 0\<rparr>, w)))"

text \<open>The closure of a rule with literal addresses; \<^verbatim>\<open>netIP[0]\<close> panics on an empty
  slice.\<close>

definition mappingStaticHandle :: "(IP \<Rightarrow> string) \<Rightarrow> string \<Rightarrow> IP list \<Rightarrow> 'w Handle option \<Rightarrow> 'w Handle" where
  "mappingStaticHandle geo mappingDomain netIP next c domain w =
     (case mapping_match mappingDomain domain of
        None \<Rightarrow> Panic
      | Some False \<Rightarrow> call next c domain w
      | Some True \<Rightarrow>
          (case netIP of
             [] \<Rightarrow> Panic
           | ip0 # _ \<Rightarrow>
               Return (Some \<lparr>Typ = TypStatic, MappingDomain = mappingDomain, Domain = domain,
                             DNS_IP = netIP, Server = [], CurrentServer = zero_DnsServer,
                             CurrentIP = ip0, CurrentCountry = geo ip0, ExpireAt = 0\<rparr>, w)))"

text \<open>The loop \<^verbatim>\<open>for i, v := range ips { netIP[i] = net.ParseIP(v) ... }\<close>.\<close>

fun parse_ips :: "string \<Rightarrow> string list \<Rightarrow> string list \<Rightarrow> string list \<Rightarrow> error + IP list" where
  "parse_ips mappingDomain servers ips [] = Inr []"
| "parse_ips mappingDomain servers ips (v # vs) =
     (if length (net_ParseIP v) = 0 then Inl (MappingIpInvalid mappingDomain servers ips v)
      else (case parse_ips mappingDomain servers ips vs of
              Inl err \<Rightarrow> Inl err
            | Inr netIP \<Rightarrow> Inr (net_ParseIP v # netIP)))"

text \<open>\<^verbatim>\<open>newMappingHandle(mappingDomain, servers, ips, next)\<close>.\<close>

definition newMappingHandle :: "(IP \<Rightarrow> string) \<Rightarrow> string \<Rightarrow> string list \<Rightarrow> string list
    \<Rightarrow> 'w Handle option \<Rightarrow> 'w Handle option \<times> error option" where
  "newMappingHandle geo mappingDomain servers ips next =
     (if length servers = 0 \<and> length ips = 0 then
        (None, Some (MappingEmpty mappingDomain servers ips))
      else if length servers > 0 then
        (case parse_servers servers of
           Inl err \<Rightarrow> (None, Some err)
         | Inr serverAddrs \<Rightarrow> (Some (mappingServerHandle mappingDomain serverAddrs next), None))
      else
        (case parse_ips mappingDomain servers ips ips of
           Inl err \<Rightarrow> (None, Some err)
         | Inr netIP \<Rightarrow> (Some (mappingStaticHandle geo mappingDomain netIP next), None)))"

section \<open>The chain builder\<close>

text \<open>The part of \<^verbatim>\<open>model.Config\<close> that \<^verbatim>\<open>ApplyConfig\<close> reads: \<^verbatim>\<open>config.DNS.Servers\<close>,
  \<^verbatim>\<open>config.DNS.IncludeSystem\<close> and \<^verbatim>\<open>config.DNS.Mapping\<close>, whose elements have the
  fields \<^verbatim>\<open>Domain\<close>, \<^verbatim>\<open>IP\<close> and \<^verbatim>\<open>Server\<close>.\<close>

record Mapping =
  Mapping_Domain :: string
  Mapping_IP :: "string list"
  Mapping_Server :: "string list"

record Config =
  DNS_Servers :: "string list"
  DNS_IncludeSystem :: bool
  DNS_Mapping :: "Mapping list"

text \<open>The loop \<^verbatim>\<open>for i := len(config.DNS.Mapping) - 1; i >= 0; i--\<close>, over the rules from
  the last one to the first: the call passes \<^verbatim>\<open>v.IP\<close> for the parameter \<^verbatim>\<open>servers\<close> and
  \<^verbatim>\<open>v.Server\<close> for the parameter \<^verbatim>\<open>ips\<close>.\<close>

fun mapping_loop :: "(IP \<Rightarrow> string) \<Rightarrow> Mapping list \<Rightarrow> 'w Handle option
    \<Rightarrow> 'w Handle option \<times> error option" where
  "mapping_loop geo [] handle = (handle, None)"
| "mapping_loop geo (v # vs) handle =
     (case newMappingHandle geo (Mapping_Domain v) (Mapping_IP v) (Mapping_Server v) handle of
        (handle', Some err) \<Rightarrow> (handle', Some err)
      | (handle', None) \<Rightarrow> mapping_loop geo vs handle')"

text \<open>\<^verbatim>\<open>ApplyConfig\<close>. The errors of \<^verbatim>\<open>newGeneralHandle\<close> and \<^verbatim>\<open>newCacheHandle\<close> are
  assigned to \<^verbatim>\<open>_\<close>.\<close>

definition ApplyConfig :: "'w package \<Rightarrow> Config \<Rightarrow> 'w Handle option
    \<Rightarrow> 'w Handle option \<times> error option" where
  "ApplyConfig pkg config fallback =
     (case InitGeoIP pkg of
        Some err \<Rightarrow> (None, Some err)
      | None \<Rightarrow>
          (let servers = DNS_Servers config;
               handle = fallback;
               handle = fst (newGeneralHandle (GeoLookUp pkg) servers handle);
               handle = fst (newCacheHandle pkg handle)
           in mapping_loop (GeoLookUp pkg) (rev (DNS_Mapping config)) handle))"

section \<open>Example inputs\<close>

text \<open>A network on which every exchange times out (\<^verbatim>\<open>dns.Exchange\<close> then returns a nil
  message and an error), and one on which every server answers with a CNAME-like record
  and the address 9.9.9.9.\<close>

definition timeout_network :: "nat \<Rightarrow> string \<Rightarrow> string \<Rightarrow> Msg option \<times> error option" where
  "timeout_network i addr domain = (None, Some (External ''i/o timeout''))"

definition answering_network :: "nat \<Rightarrow> string \<Rightarrow> string \<Rightarrow> Msg option \<times> error option" where
  "answering_network i addr domain = (Some \<lparr>Answer = [OtherRR, A [9, 9, 9, 9]]\<rparr>, None)"

definition cancelled_ctx :: ctx where
  "cancelled_ctx = \<lparr>exchange = timeout_network, schedule = [CtxDone]\<rparr>"

definition timeout_ctx :: ctx where
  "timeout_ctx = \<lparr>exchange = timeout_network, schedule = [Finished 0]\<rparr>"

definition answering_ctx :: ctx where
  "answering_ctx = \<lparr>exchange = answering_network, schedule = [Finished 0, CtxDone]\<rparr>"

definition never_cancelled_ctx :: ctx where
  "never_cancelled_ctx = \<lparr>exchange = answering_network, schedule = [Finished 0, Finished 1]\<rparr>"

text \<open>A fallback that answers with a \<^verbatim>\<open>system\<close> record and counts its calls in the
  state, and a package whose cache constructor adds no handler.\<close>

definition system_record :: "string \<Rightarrow> DNS" where
  "system_record domain =
     \<lparr>Typ = TypSystem, MappingDomain = [], Domain = domain, DNS_IP = [[127, 0, 0, 1]],
      Server = [], CurrentServer = zero_DnsServer, CurrentIP = [127, 0, 0, 1],
      CurrentCountry = [], ExpireAt = 0\<rparr>"

definition counting_fallback :: "nat Handle" where
  "counting_fallback c domain w = Return (Some (system_record domain), Suc w)"

definition no_cache :: "nat package" where
  "no_cache = \<lparr>InitGeoIP = None, GeoLookUp = (\<lambda>ip. ''ZZ''),
               newCacheHandle = (\<lambda>next. (next, None))\<rparr>"

definition static_rule_config :: Config where
  "static_rule_config =
     \<lparr>DNS_Servers = [], DNS_IncludeSystem = False,
      DNS_Mapping = [\<lparr>Mapping_Domain = ''example.com'', Mapping_IP = [''1.2.3.4''],
                      Mapping_Server = []\<rparr>]\<rparr>"

definition bad_server_config :: Config where
  "bad_server_config =
     \<lparr>DNS_Servers = [''tcp://1.1.1.1''], DNS_IncludeSystem = False, DNS_Mapping = []\<rparr>"

definition two_rules_config :: Config where
  "two_rules_config =
     \<lparr>DNS_Servers = [''8.8.8.8''], DNS_IncludeSystem = False,
      DNS_Mapping = [\<lparr>Mapping_Domain = ''*.example.com'', Mapping_IP = [],
                      Mapping_Server = [''8.8.8.8'']\<rparr>,
                     \<lparr>Mapping_Domain = ''a.example.com'', Mapping_IP = [],
                      Mapping_Server = [''1.1.1.1'']\<rparr>]\<rparr>"

text \<open>Two rules whose addresses are given in the field \<^verbatim>\<open>IP\<close>.\<close>

definition server_rules_config :: Config where
  "server_rules_config =
     \<lparr>DNS_Servers = [''8.8.8.8''], DNS_IncludeSystem = False,
      DNS_Mapping = [\<lparr>Mapping_Domain = ''*.example.com'', Mapping_IP = [''8.8.8.8''],
                      Mapping_Server = []\<rparr>,
                     \<lparr>Mapping_Domain = ''a.example.com'', Mapping_IP = [''9.9.9.9''],
                      Mapping_Server = []\<rparr>]\<rparr>"

definition v4 :: "nat \<Rightarrow> nat \<Rightarrow> nat \<Rightarrow> nat \<Rightarrow> IP" where
  "v4 a b c d = [0, 0, 0, 0, 0, 0, 0, 0, 0, 0, 255, 255, a, b, c, d]"

definition udp_server :: "IP \<Rightarrow> int \<Rightarrow> DnsServer" where
  "udp_server ip port = \<lparr>Network = ''udp'', IP = ip, Port = port\<rparr>"

section \<open>Notions used in the proofs\<close>

text \<open>The dotted-decimal text of four octets, the bytes of a list of 16-bit fields, and
  the fields written with colons between them.\<close>

definition dotted :: "nat \<Rightarrow> nat \<Rightarrow> nat \<Rightarrow> nat \<Rightarrow> string" where
  "dotted a b c d =
     appendDecimal a @ ''.'' @ appendDecimal b @ ''.'' @ appendDecimal c @ ''.'' @ appendDecimal d"

definition bytes_of :: "nat list \<Rightarrow> nat list" where
  "bytes_of gs = concat (map (\<lambda>g. [g div 256, g mod 256]) gs)"

definition joined :: "nat list \<Rightarrow> string" where
  "joined gs = join_colon (map appendHex gs)"

text \<open>One step of the search for the longest run of zero fields, and what the search
  returns: no run, or the bounds of a run of at least two zero fields.\<close>

definition span_step :: "nat list \<Rightarrow> nat \<times> nat \<Rightarrow> nat \<Rightarrow> nat \<times> nat" where
  "span_step gs = (\<lambda>(zeroStart, zeroEnd) i.
     (let j = i + length (takeWhile (\<lambda>g. g = 0) (drop i gs)); l = j - i in
      if l \<ge> 2 \<and> l > zeroEnd - zeroStart then (i, j) else (zeroStart, zeroEnd)))"

definition zero_run :: "nat list \<Rightarrow> nat \<times> nat \<Rightarrow> bool" where
  "zero_run gs z = (case z of (zeroStart, zeroEnd) \<Rightarrow>
     (zeroStart = 255 \<and> zeroEnd = 255)
     \<or> (zeroStart + 2 \<le> zeroEnd \<and> zeroEnd \<le> length gs
        \<and> take (zeroEnd - zeroStart) (drop zeroStart gs) = replicate (zeroEnd - zeroStart) 0))"

text \<open>The addresses \<^verbatim>\<open>net.ParseIP\<close> returns: 16 bytes.\<close>

definition valid_ip :: "IP \<Rightarrow> bool" where
  "valid_ip ip = (length ip = 16 \<and> list_all (\<lambda>b. b < 256) ip)"

text \<open>The bytes of a formatted address, and the bytes of a formatted host and port.\<close>

definition hostsafe :: "char \<Rightarrow> bool" where
  "hostsafe c = (ishex c \<or> c = CHR ''.'' \<or> c = CHR '':'')"

definition urlsafe :: "char \<Rightarrow> bool" where
  "urlsafe c = (ishex c \<or> c = CHR ''.'' \<or> c = CHR '':'' \<or> c = CHR ''['' \<or> c = CHR '']'')"

section \<open>Evaluations of the parsers\<close>

lemma ParseIP_8888: "net_ParseIP ''8.8.8.8'' = v4 8 8 8 8"
  by code_simp

lemma ParseIP_1111: "net_ParseIP ''1.1.1.1'' = v4 1 1 1 1"
  by code_simp

lemma ParseIP_1234: "net_ParseIP ''1.2.3.4'' = v4 1 2 3 4"
  by code_simp

lemma Parse_8888: "ParseDnsServer ''8.8.8.8'' = Inr (udp_server (v4 8 8 8 8) 53)"
  by code_simp

lemma Parse_9999: "ParseDnsServer ''9.9.9.9'' = Inr (udp_server (v4 9 9 9 9) 53)"
  by code_simp

lemma Parse_1234: "ParseDnsServer ''1.2.3.4'' = Inr (udp_server (v4 1 2 3 4) 53)"
  by code_simp

lemma Parse_udp_1111_5353: "ParseDnsServer ''udp://1.1.1.1:5353'' = Inr (udp_server (v4 1 1 1 1) 5353)"
  by code_simp

lemma Parse_tcp: "ParseDnsServer ''tcp://1.1.1.1'' = Inl (NotSupport ''tcp://1.1.1.1'' ''tcp'')"
  by code_simp

lemma Parse_not_an_ip: "ParseDnsServer ''udp://not-an-ip'' = Inl (IpInvalid ''udp://not-an-ip'' ''not-an-ip'')"
  by code_simp

lemma Parse_bad_port: "ParseDnsServer ''udp://1.1.1.1:dns'' = Inl (UrlParseError ''udp://1.1.1.1:dns'')"
  by code_simp

section \<open>The race\<close>

lemma race_error:
  "race c domain servers es = Return (ips, server, Some e) \<Longrightarrow>
     ips = [] \<and> server = zero_DnsServer \<and> e = ContextCanceled"
  by (induction c domain servers es rule: race.induct)
     (auto split: if_splits outcome.splits prod.splits)

lemma ResolveDomain_error:
  "ResolveDomain c domain servers = Return (ips, server, Some e) \<Longrightarrow>
     ips = [] \<and> server = zero_DnsServer \<and> e = ContextCanceled"
  unfolding ResolveDomain_def by (rule race_error)

lemma race_no_servers:
  "race c domain [] es =
     (if CtxDone \<in> set es then Return ([], zero_DnsServer, Some ContextCanceled) else Blocked)"
  by (induction c domain "[] :: DnsServer list" es rule: race.induct) auto

text \<open>
  Claim C3. The claim: a per-server attempt whose transport exchange returns an error
  still completes, with an empty address set that names its own server, and may win the
  race. In the code the goroutine reads \<^verbatim>\<open>r.Answer\<close> after the error was noted, and
  \<^verbatim>\<open>dns.Exchange\<close> returns a nil message with a transport error: the attempt panics, and
  so does the race it is the first to finish.
\<close>

theorem failed_exchange_panics:
  "attempt timeout_ctx domain 0 s = Panic \<and> ResolveDomain timeout_ctx domain [s] = Panic"
  by (simp add: attempt_def timeout_ctx_def timeout_network_def ResolveDomain_def)

text \<open>
  Claim C5, as the code has it. With no server no goroutine is started, so the
  \<^verbatim>\<open>select\<close> can only take \<^verbatim>\<open>ctx.Done()\<close>: the call returns the cancellation error once
  the caller's scope is cancelled, and blocks for ever when it never is.
\<close>

theorem zero_servers_wait_for_cancel:
  "ResolveDomain c domain [] =
     (if CtxDone \<in> set (schedule c) then Return ([], zero_DnsServer, Some ContextCanceled)
      else Blocked)"
  unfolding ResolveDomain_def by (rule race_no_servers)

text \<open>The claim C5 as stated (the call fails fast, without waiting for the
  cancellation) is false under a scope that is never cancelled: the call blocks.\<close>

theorem zero_servers_block_counterexample:
  "ResolveDomain never_cancelled_ctx ''example.com'' [] = Blocked"
  by (simp add: ResolveDomain_def never_cancelled_ctx_def)

section \<open>The general resolver\<close>

text \<open>
  Claim C4. When the race of the general resolver returns an error, the handler calls the
  next handler (the state that comes back is the one the next handler left), and the
  record it returns is its own \<^verbatim>\<open>dynamic\<close> record, with no address: the record of the
  next handler is dropped.
\<close>

theorem general_handle_keeps_own_record:
  assumes "parse_servers servers = Inr serverAddrs"
    and "ResolveDomain c domain serverAddrs = Return (ips, server, Some e)"
  shows "call (fst (newGeneralHandle geo servers next)) c domain w =
     (case call next c domain w of
        Return (discarded, w') \<Rightarrow>
          Return (Some \<lparr>Typ = TypDynamic, MappingDomain = [], Domain = domain, DNS_IP = [],
                        Server = [], CurrentServer = zero_DnsServer, CurrentIP = [],
                        CurrentCountry = geo [], ExpireAt = 0\<rparr>, w')
      | Panic \<Rightarrow> Panic
      | Blocked \<Rightarrow> Blocked)"
proof -
  from ResolveDomain_error [OF assms(2)]
  have "ips = []" "server = zero_DnsServer" by simp_all
  with assms show ?thesis
    by (simp add: newGeneralHandle_def call_def generalHandle_def SelectIP_def)
qed

theorem general_handle_keeps_own_record_witness:
  "parse_servers [''8.8.8.8''] = Inr [udp_server (v4 8 8 8 8) 53]
   \<and> ResolveDomain cancelled_ctx ''example.com'' [udp_server (v4 8 8 8 8) 53]
       = Return ([], zero_DnsServer, Some ContextCanceled)
   \<and> call (fst (newGeneralHandle (\<lambda>ip. ''ZZ'') [''8.8.8.8''] (Some counting_fallback)))
        cancelled_ctx ''example.com'' 0
       = Return (Some \<lparr>Typ = TypDynamic, MappingDomain = [], Domain = ''example.com'',
                       DNS_IP = [], Server = [], CurrentServer = zero_DnsServer, CurrentIP = [],
                       CurrentCountry = ''ZZ'', ExpireAt = 0\<rparr>, Suc 0)"
proof -
  have p: "parse_servers [''8.8.8.8''] = Inr [udp_server (v4 8 8 8 8) 53]"
    by (simp add: Parse_8888)
  have r: "ResolveDomain cancelled_ctx ''example.com'' [udp_server (v4 8 8 8 8) 53]
      = Return ([], zero_DnsServer, Some ContextCanceled)"
    by (simp add: ResolveDomain_def cancelled_ctx_def)
  show ?thesis
    using general_handle_keeps_own_record [OF p r, of "\<lambda>ip. ''ZZ''" "Some counting_fallback" 0] p r
    by (simp add: call_def counting_fallback_def)
qed

section \<open>Mapping rules\<close>

lemma mapping_match_nonempty:
  "P \<noteq> [] \<Longrightarrow> mapping_match P d = Some (if hd P = CHR ''*'' then suffix (tl P) d else d = P)"
  by (cases P) (auto simp: mapping_match_def strings_HasSuffix_def suffix_def)

lemma newMappingHandle_cases:
  assumes "snd (newMappingHandle geo P servers ips next) = None"
  obtains serverAddrs where "servers \<noteq> []" "parse_servers servers = Inr serverAddrs"
      "fst (newMappingHandle geo P servers ips next) = Some (mappingServerHandle P serverAddrs next)"
  | netIP where "servers = []" "ips \<noteq> []" "parse_ips P servers ips ips = Inr netIP"
      "fst (newMappingHandle geo P servers ips next) = Some (mappingStaticHandle geo P netIP next)"
  using assms by (auto simp: newMappingHandle_def split: if_splits sum.splits)

lemma newMappingHandle_miss:
  assumes "snd (newMappingHandle geo P servers ips next) = None"
    and "mapping_match P domain = Some False"
  shows "call (fst (newMappingHandle geo P servers ips next)) c domain w = call next c domain w"
  using assms(1)
  by (rule newMappingHandle_cases)
     (simp_all add: call_def mappingServerHandle_def mappingStaticHandle_def assms(2))

lemma newMappingHandle_hit:
  assumes "snd (newMappingHandle geo P servers ips next) = None"
    and "mapping_match P domain = Some True"
    and "call (fst (newMappingHandle geo P servers ips next)) c domain w = Return (r, w')"
  shows "\<exists>reply. r = Some reply \<and> MappingDomain reply = P"
  using assms(1)
proof (rule newMappingHandle_cases)
  fix serverAddrs
  assume "fst (newMappingHandle geo P servers ips next) = Some (mappingServerHandle P serverAddrs next)"
  with assms(2,3) show ?thesis
    by (auto simp: call_def mappingServerHandle_def split: outcome.splits prod.splits)
next
  fix netIP
  assume "fst (newMappingHandle geo P servers ips next) = Some (mappingStaticHandle geo P netIP next)"
  with assms(2,3) show ?thesis
    by (auto simp: call_def mappingStaticHandle_def split: list.splits)
qed

text \<open>A rule with literal addresses, built by \<^verbatim>\<open>newMappingHandle\<close> itself (its parameter
  \<open>ips\<close>), answers a matching domain from the parsed list and reads nothing of \<open>ctx\<close>.\<close>

lemma static_handle_answers_from_the_list:
  assumes "parse_ips mappingDomain [] ips ips = Inr netIP"
    and "ips \<noteq> []"
    and "mapping_match mappingDomain domain = Some True"
  shows "call (fst (newMappingHandle geo mappingDomain [] ips next)) c domain w =
      Return (Some \<lparr>Typ = TypStatic, MappingDomain = mappingDomain, Domain = domain,
                    DNS_IP = netIP, Server = [], CurrentServer = zero_DnsServer,
                    CurrentIP = hd netIP, CurrentCountry = geo (hd netIP), ExpireAt = 0\<rparr>, w)"
proof -
  from assms(1,2) have "netIP \<noteq> []"
    by (cases ips) (auto split: if_splits sum.splits)
  with assms show ?thesis
    by (cases netIP) (simp_all add: newMappingHandle_def call_def mappingStaticHandle_def)
qed

text \<open>
  Claim C7. The claim: for every pattern \<open>P\<close> and domain \<open>d\<close>, a pattern that begins with
  \<^verbatim>\<open>*\<close> matches exactly the domains that end with the rest of \<open>P\<close>, any other pattern
  matches exactly \<open>d = P\<close>, and a miss is delegated unchanged. It holds for every
  non-empty pattern (\<open>mapping_match_nonempty\<close>, \<open>newMappingHandle_miss\<close>). The empty
  pattern does not begin with \<^verbatim>\<open>*\<close>, so it should match the empty domain and delegate any
  other; the closures evaluate \<^verbatim>\<open>mappingDomain[0]\<close> first, and every query panics, in
  the closure of a rule with servers and in the closure of a rule with addresses.
\<close>

theorem empty_pattern_panics:
  "call (fst (newMappingHandle geo [] [''8.8.8.8''] [] next)) c domain w = Panic
   \<and> call (fst (newMappingHandle geo [] [] [''1.2.3.4''] next)) c domain w = Panic"
  by (simp add: newMappingHandle_def Parse_8888 ParseIP_1234 call_def mappingServerHandle_def
      mappingStaticHandle_def mapping_match_def v4_def)

text \<open>For a rule with servers and a domain that matches its pattern, the closure is the
  race over the rule's servers and nothing else: the next handler does not occur in the
  outcome, and the outside state is left as it was.\<close>

lemma server_rule_outcome_on_match:
  assumes "servers \<noteq> []"
    and "parse_servers servers = Inr serverAddrs"
    and "mapping_match mappingDomain domain = Some True"
  shows "call (fst (newMappingHandle geo mappingDomain servers ips next)) c domain w =
      (case ResolveDomain c domain serverAddrs of
         Return (addrs, server, err) \<Rightarrow>
           Return (Some \<lparr>Typ = TypStatic, MappingDomain = mappingDomain, Domain = domain,
                         DNS_IP = (if err = None then addrs else []), Server = serverAddrs,
                         CurrentServer = server, CurrentIP = [], CurrentCountry = [],
                         ExpireAt = 0\<rparr>, w)
       | Panic \<Rightarrow> Panic
       | Blocked \<Rightarrow> Blocked)"
proof (cases "ResolveDomain c domain serverAddrs")
  case (Return x)
  obtain addrs server err where x: "x = (addrs, server, err)" by (cases x)
  have "err \<noteq> None \<Longrightarrow> addrs = []"
    using ResolveDomain_error [of c domain serverAddrs addrs server] Return x by auto
  then show ?thesis
    using assms Return x
    by (auto simp: newMappingHandle_def call_def mappingServerHandle_def)
qed (use assms in \<open>simp_all add: newMappingHandle_def call_def mappingServerHandle_def\<close>)

lemma newMappingHandle_on_match:
  assumes "snd (newMappingHandle geo P servers ips next) = None"
    and "mapping_match P domain = Some True"
  shows "(\<exists>serverAddrs. servers \<noteq> [] \<and> parse_servers servers = Inr serverAddrs
            \<and> call (fst (newMappingHandle geo P servers ips next)) c domain w =
                (case ResolveDomain c domain serverAddrs of
                   Return (addrs, server, err) \<Rightarrow>
                     Return (Some \<lparr>Typ = TypStatic, MappingDomain = P, Domain = domain,
                                   DNS_IP = addrs, Server = serverAddrs, CurrentServer = server,
                                   CurrentIP = [], CurrentCountry = [], ExpireAt = 0\<rparr>, w)
                 | Panic \<Rightarrow> Panic
                 | Blocked \<Rightarrow> Blocked))
       \<or> (\<exists>ip0 netIP. servers = [] \<and> parse_ips P [] ips ips = Inr (ip0 # netIP)
            \<and> call (fst (newMappingHandle geo P servers ips next)) c domain w =
                Return (Some \<lparr>Typ = TypStatic, MappingDomain = P, Domain = domain,
                              DNS_IP = ip0 # netIP, Server = [], CurrentServer = zero_DnsServer,
                              CurrentIP = ip0, CurrentCountry = geo ip0, ExpireAt = 0\<rparr>, w))"
  using assms(1)
proof (rule newMappingHandle_cases)
  fix serverAddrs
  assume "servers \<noteq> []" "parse_servers servers = Inr serverAddrs"
    "fst (newMappingHandle geo P servers ips next) = Some (mappingServerHandle P serverAddrs next)"
  then show ?thesis
    using assms(2)
    by (auto simp: call_def mappingServerHandle_def split: outcome.splits prod.splits)
next
  fix netIP
  assume a: "servers = []" "ips \<noteq> []" "parse_ips P servers ips ips = Inr netIP"
    "fst (newMappingHandle geo P servers ips next) = Some (mappingStaticHandle geo P netIP next)"
  from a(2,3) have "netIP \<noteq> []" by (cases ips) (auto split: if_splits sum.splits)
  then obtain ip0 rest where "netIP = ip0 # rest" by (cases netIP) auto
  with a assms(2) show ?thesis
    by (simp add: call_def mappingStaticHandle_def)
qed

text \<open>
  Claim C9. The claim: for a rule with servers and a domain that matches it, the handler
  returns a \<^verbatim>\<open>static\<close> record with the matched pattern and the rule's servers, never
  calling the next handler, also when the race fails (the record then has no address).
  The next handler is indeed never called (\<open>server_rule_outcome_on_match\<close>), and a race
  that ends with a cancelled scope gives the record without addresses. But when the
  rule's server is unreachable the exchange returns a nil message, the goroutine of
  \<^verbatim>\<open>ResolveDomain\<close> dereferences it, and the handler panics: no record is returned.
\<close>

theorem unreachable_server_rule_panics:
  "snd (newMappingHandle geo ''*.example.com'' [''8.8.8.8''] [] next) = None
   \<and> mapping_match ''*.example.com'' ''a.example.com'' = Some True
   \<and> call (fst (newMappingHandle geo ''*.example.com'' [''8.8.8.8''] [] next))
        timeout_ctx ''a.example.com'' w = Panic"
  by (simp add: newMappingHandle_def Parse_8888 call_def mappingServerHandle_def mapping_match_def
      strings_HasSuffix_def suffix_to_prefix ResolveDomain_def timeout_ctx_def attempt_def
      timeout_network_def)

section \<open>The chain\<close>

lemma ApplyConfig_two_rules:
  assumes "snd (ApplyConfig pkg config fallback) = None"
    and "DNS_Mapping config = [ruleA, ruleB]"
  defines "inner \<equiv> fst (newCacheHandle pkg
                          (fst (newGeneralHandle (GeoLookUp pkg) (DNS_Servers config) fallback)))"
  defines "hB \<equiv> newMappingHandle (GeoLookUp pkg) (Mapping_Domain ruleB) (Mapping_IP ruleB)
                   (Mapping_Server ruleB) inner"
  defines "hA \<equiv> newMappingHandle (GeoLookUp pkg) (Mapping_Domain ruleA) (Mapping_IP ruleA)
                   (Mapping_Server ruleA) (fst hB)"
  shows "snd hB = None \<and> snd hA = None \<and> fst (ApplyConfig pkg config fallback) = fst hA"
  using assms(1)
  by (auto simp: ApplyConfig_def assms(2) hA_def hB_def inner_def Let_def
      split: option.splits prod.splits)

text \<open>
  Claim C6. With the rules \<open>[A, B]\<close> configured in this order and a chain that was built
  without error, the first rule that matches the domain decides the query alone (\<open>A\<close> when
  it matches, whatever \<open>B\<close> does; \<open>B\<close> when \<open>A\<close> misses and \<open>B\<close> matches): the outcome is
  that rule's own answer, which carries its pattern, leaves the outside state as it was and
  depends on no later handler. The answer is the race over the rule's servers when the rule
  was built with servers (a record for every race that returns), and the record of its
  literal addresses otherwise. When both rules miss, the query is the query of the cache
  handler (built over the general resolver and the fallback).
\<close>

theorem first_configured_rule_wins:
  assumes "snd (ApplyConfig pkg config fallback) = None"
    and "DNS_Mapping config = [ruleA, ruleB]"
  shows "((mapping_match (Mapping_Domain ruleA) domain = Some True \<and> rule = ruleA)
          \<or> (mapping_match (Mapping_Domain ruleA) domain = Some False
              \<and> mapping_match (Mapping_Domain ruleB) domain = Some True \<and> rule = ruleB)
         \<longrightarrow>
           (\<exists>serverAddrs. Mapping_IP rule \<noteq> [] \<and> parse_servers (Mapping_IP rule) = Inr serverAddrs
              \<and> call (fst (ApplyConfig pkg config fallback)) c domain w =
                  (case ResolveDomain c domain serverAddrs of
                     Return (addrs, server, err) \<Rightarrow>
                       Return (Some \<lparr>Typ = TypStatic, MappingDomain = Mapping_Domain rule,
                                     Domain = domain, DNS_IP = addrs, Server = serverAddrs,
                                     CurrentServer = server, CurrentIP = [], CurrentCountry = [],
                                     ExpireAt = 0\<rparr>, w)
                   | Panic \<Rightarrow> Panic
                   | Blocked \<Rightarrow> Blocked))
           \<or> (\<exists>ip0 netIP. Mapping_IP rule = []
              \<and> parse_ips (Mapping_Domain rule) [] (Mapping_Server rule) (Mapping_Server rule)
                    = Inr (ip0 # netIP)
              \<and> call (fst (ApplyConfig pkg config fallback)) c domain w =
                  Return (Some \<lparr>Typ = TypStatic, MappingDomain = Mapping_Domain rule,
                                Domain = domain, DNS_IP = ip0 # netIP, Server = [],
                                CurrentServer = zero_DnsServer, CurrentIP = ip0,
                                CurrentCountry = GeoLookUp pkg ip0, ExpireAt = 0\<rparr>, w)))
       \<and> (mapping_match (Mapping_Domain ruleA) domain = Some False
          \<and> mapping_match (Mapping_Domain ruleB) domain = Some False
          \<longrightarrow> call (fst (ApplyConfig pkg config fallback)) c domain w =
              call (fst (newCacheHandle pkg
                     (fst (newGeneralHandle (GeoLookUp pkg) (DNS_Servers config) fallback))))
                c domain w)"
proof -
  define inner where "inner = fst (newCacheHandle pkg
      (fst (newGeneralHandle (GeoLookUp pkg) (DNS_Servers config) fallback)))"
  define hB where "hB = newMappingHandle (GeoLookUp pkg) (Mapping_Domain ruleB)
      (Mapping_IP ruleB) (Mapping_Server ruleB) inner"
  define hA where "hA = newMappingHandle (GeoLookUp pkg) (Mapping_Domain ruleA)
      (Mapping_IP ruleA) (Mapping_Server ruleA) (fst hB)"
  from ApplyConfig_two_rules [OF assms]
  have B: "snd hB = None" and A: "snd hA = None"
    and h: "fst (ApplyConfig pkg config fallback) = fst hA"
    by (simp_all add: hA_def hB_def inner_def)
  have missA: "mapping_match (Mapping_Domain ruleA) domain = Some False \<Longrightarrow>
      call (fst hA) c domain w = call (fst hB) c domain w"
    using A unfolding hA_def by (rule newMappingHandle_miss)
  have missB: "mapping_match (Mapping_Domain ruleB) domain = Some False \<Longrightarrow>
      call (fst hB) c domain w = call inner c domain w"
    using B unfolding hB_def by (rule newMappingHandle_miss)
  have hitA: "mapping_match (Mapping_Domain ruleA) domain = Some True \<Longrightarrow>
      (\<exists>serverAddrs. Mapping_IP ruleA \<noteq> [] \<and> parse_servers (Mapping_IP ruleA) = Inr serverAddrs
              \<and> call (fst hA) c domain w =
                  (case ResolveDomain c domain serverAddrs of
                     Return (addrs, server, err) \<Rightarrow>
                       Return (Some \<lparr>Typ = TypStatic, MappingDomain = Mapping_Domain ruleA,
                                     Domain = domain, DNS_IP = addrs, Server = serverAddrs,
                                     CurrentServer = server, CurrentIP = [], CurrentCountry = [],
                                     ExpireAt = 0\<rparr>, w)
                   | Panic \<Rightarrow> Panic
                   | Blocked \<Rightarrow> Blocked))
           \<or> (\<exists>ip0 netIP. Mapping_IP ruleA = []
              \<and> parse_ips (Mapping_Domain ruleA) [] (Mapping_Server ruleA) (Mapping_Server ruleA)
                    = Inr (ip0 # netIP)
              \<and> call (fst hA) c domain w =
                  Return (Some \<lparr>Typ = TypStatic, MappingDomain = Mapping_Domain ruleA,
                                Domain = domain, DNS_IP = ip0 # netIP, Server = [],
                                CurrentServer = zero_DnsServer, CurrentIP = ip0,
                                CurrentCountry = GeoLookUp pkg ip0, ExpireAt = 0\<rparr>, w))"
    using A unfolding hA_def by (rule newMappingHandle_on_match)
  have hitB: "mapping_match (Mapping_Domain ruleB) domain = Some True \<Longrightarrow>
      (\<exists>serverAddrs. Mapping_IP ruleB \<noteq> [] \<and> parse_servers (Mapping_IP ruleB) = Inr serverAddrs
              \<and> call (fst hB) c domain w =
                  (case ResolveDomain c domain serverAddrs of
                     Return (addrs, server, err) \<Rightarrow>
                       Return (Some \<lparr>Typ = TypStatic, MappingDomain = Mapping_Domain ruleB,
                                     Domain = domain, DNS_IP = addrs, Server = serverAddrs,
                                     CurrentServer = server, CurrentIP = [], CurrentCountry = [],
                                     ExpireAt = 0\<rparr>, w)
                   | Panic \<Rightarrow> Panic
                   | Blocked \<Rightarrow> Blocked))
           \<or> (\<exists>ip0 netIP. Mapping_IP ruleB = []
              \<and> parse_ips (Mapping_Domain ruleB) [] (Mapping_Server ruleB) (Mapping_Server ruleB)
                    = Inr (ip0 # netIP)
              \<and> call (fst hB) c domain w =
                  Return (Some \<lparr>Typ = TypStatic, MappingDomain = Mapping_Domain ruleB,
                                Domain = domain, DNS_IP = ip0 # netIP, Server = [],
                                CurrentServer = zero_DnsServer, CurrentIP = ip0,
                                CurrentCountry = GeoLookUp pkg ip0, ExpireAt = 0\<rparr>, w))"
    using B unfolding hB_def by (rule newMappingHandle_on_match)
  have both: "mapping_match (Mapping_Domain ruleA) domain = Some False \<Longrightarrow>
      mapping_match (Mapping_Domain ruleB) domain = Some False \<Longrightarrow>
      call (fst hA) c domain w = call inner c domain w"
    using missA missB by simp
  show ?thesis
    unfolding h inner_def [symmetric]
  proof (intro conjI impI)
    assume "(mapping_match (Mapping_Domain ruleA) domain = Some True \<and> rule = ruleA)
          \<or> (mapping_match (Mapping_Domain ruleA) domain = Some False
              \<and> mapping_match (Mapping_Domain ruleB) domain = Some True \<and> rule = ruleB)"
    then show "(\<exists>serverAddrs. Mapping_IP rule \<noteq> [] \<and> parse_servers (Mapping_IP rule) = Inr serverAddrs
              \<and> call (fst hA) c domain w =
                  (case ResolveDomain c domain serverAddrs of
                     Return (addrs, server, err) \<Rightarrow>
                       Return (Some \<lparr>Typ = TypStatic, MappingDomain = Mapping_Domain rule,
                                     Domain = domain, DNS_IP = addrs, Server = serverAddrs,
                                     CurrentServer = server, CurrentIP = [], CurrentCountry = [],
                                     ExpireAt = 0\<rparr>, w)
                   | Panic \<Rightarrow> Panic
                   | Blocked \<Rightarrow> Blocked))
           \<or> (\<exists>ip0 netIP. Mapping_IP rule = []
              \<and> parse_ips (Mapping_Domain rule) [] (Mapping_Server rule) (Mapping_Server rule)
                    = Inr (ip0 # netIP)
              \<and> call (fst hA) c domain w =
                  Return (Some \<lparr>Typ = TypStatic, MappingDomain = Mapping_Domain rule,
                                Domain = domain, DNS_IP = ip0 # netIP, Server = [],
                                CurrentServer = zero_DnsServer, CurrentIP = ip0,
                                CurrentCountry = GeoLookUp pkg ip0, ExpireAt = 0\<rparr>, w))"
    proof (elim disjE conjE)
      assume m: "mapping_match (Mapping_Domain ruleA) domain = Some True" and r: "rule = ruleA"
      show ?thesis unfolding r by (rule hitA [OF m])
    next
      assume a: "mapping_match (Mapping_Domain ruleA) domain = Some False"
        and b: "mapping_match (Mapping_Domain ruleB) domain = Some True" and r: "rule = ruleB"
      show ?thesis unfolding r missA [OF a] by (rule hitB [OF b])
    qed
  next
    assume "mapping_match (Mapping_Domain ruleA) domain = Some False
          \<and> mapping_match (Mapping_Domain ruleB) domain = Some False"
    then show "call (fst hA) c domain w = call inner c domain w" using both by simp
  qed
qed

theorem first_configured_rule_wins_witness:
  "snd (ApplyConfig no_cache server_rules_config (Some counting_fallback)) = None
   \<and> DNS_Mapping server_rules_config =
         [\<lparr>Mapping_Domain = ''*.example.com'', Mapping_IP = [''8.8.8.8''], Mapping_Server = []\<rparr>,
          \<lparr>Mapping_Domain = ''a.example.com'', Mapping_IP = [''9.9.9.9''], Mapping_Server = []\<rparr>]
   \<and> mapping_match ''*.example.com'' ''a.example.com'' = Some True
   \<and> mapping_match ''a.example.com'' ''a.example.com'' = Some True
   \<and> parse_servers [''8.8.8.8''] = Inr [udp_server (v4 8 8 8 8) 53]
   \<and> call (fst (ApplyConfig no_cache server_rules_config (Some counting_fallback)))
         answering_ctx ''a.example.com'' 0 =
       Return (Some \<lparr>Typ = TypStatic, MappingDomain = ''*.example.com'',
                     Domain = ''a.example.com'', DNS_IP = [[9, 9, 9, 9]],
                     Server = [udp_server (v4 8 8 8 8) 53],
                     CurrentServer = udp_server (v4 8 8 8 8) 53, CurrentIP = [],
                     CurrentCountry = [], ExpireAt = 0\<rparr>, 0)"
proof -
  let ?A = "\<lparr>Mapping_Domain = ''*.example.com'', Mapping_IP = [''8.8.8.8''], Mapping_Server = []\<rparr>"
  let ?B = "\<lparr>Mapping_Domain = ''a.example.com'', Mapping_IP = [''9.9.9.9''], Mapping_Server = []\<rparr>"
  have e: "snd (ApplyConfig no_cache server_rules_config (Some counting_fallback)) = None"
    by (simp add: ApplyConfig_def no_cache_def server_rules_config_def newMappingHandle_def
        Parse_8888 Parse_9999)
  have m: "DNS_Mapping server_rules_config = [?A, ?B]"
    by (simp add: server_rules_config_def)
  have a: "mapping_match ''*.example.com'' ''a.example.com'' = Some True"
    by (simp add: mapping_match_def strings_HasSuffix_def suffix_to_prefix)
  have b: "mapping_match ''a.example.com'' ''a.example.com'' = Some True"
    by (simp add: mapping_match_def)
  have p: "parse_servers [''8.8.8.8''] = Inr [udp_server (v4 8 8 8 8) 53]"
    by (simp add: Parse_8888)
  have r: "ResolveDomain answering_ctx ''a.example.com'' [udp_server (v4 8 8 8 8) 53]
      = Return ([[9, 9, 9, 9]], udp_server (v4 8 8 8 8) 53, None)"
    by (simp add: ResolveDomain_def answering_ctx_def attempt_def answering_network_def)
  from first_configured_rule_wins [OF e m, of "''a.example.com''" ?A answering_ctx 0] a
  have c: "call (fst (ApplyConfig no_cache server_rules_config (Some counting_fallback)))
         answering_ctx ''a.example.com'' 0 =
       Return (Some \<lparr>Typ = TypStatic, MappingDomain = ''*.example.com'',
                     Domain = ''a.example.com'', DNS_IP = [[9, 9, 9, 9]],
                     Server = [udp_server (v4 8 8 8 8) 53],
                     CurrentServer = udp_server (v4 8 8 8 8) 53, CurrentIP = [],
                     CurrentCountry = [], ExpireAt = 0\<rparr>, 0)"
    by (auto simp: Parse_8888 r)
  show ?thesis using e m a b p c by simp
qed

text \<open>The same two patterns with the addresses given in the field \<^verbatim>\<open>Server\<close>: the first
  rule answers from its list, without the network and without the fallback.\<close>

lemma two_rules_static_example:
  "call (fst (ApplyConfig no_cache two_rules_config (Some counting_fallback)))
      timeout_ctx ''a.example.com'' 0 =
      Return (Some \<lparr>Typ = TypStatic, MappingDomain = ''*.example.com'', Domain = ''a.example.com'',
                    DNS_IP = [v4 8 8 8 8], Server = [], CurrentServer = zero_DnsServer,
                    CurrentIP = v4 8 8 8 8, CurrentCountry = ''ZZ'', ExpireAt = 0\<rparr>, 0)"
  by (simp add: ApplyConfig_def no_cache_def two_rules_config_def newMappingHandle_def
      ParseIP_8888 ParseIP_1111 v4_def call_def mappingStaticHandle_def mapping_match_def
      strings_HasSuffix_def suffix_to_prefix)

text \<open>
  Claim C1. The claim: a rule configured with literal addresses and no server answers a
  matching domain with a \<^verbatim>\<open>static\<close> record holding exactly these addresses, the first
  one selected, without any network call, and the query cannot fail. \<^verbatim>\<open>ApplyConfig\<close>
  passes the rule's addresses for the parameter \<open>servers\<close> of \<^verbatim>\<open>newMappingHandle\<close>, so
  the rule \<open>example.com \<rightarrow> 1.2.3.4\<close> is built as a rule whose name server is
  \<^verbatim>\<open>udp://1.2.3.4:53\<close>: the answer is the outcome of the race against that server (no
  address under a cancelled scope, the server's answer 9.9.9.9 when it replies, a panic
  when the exchange fails), never the configured address, and no address is selected.
\<close>

theorem configured_addresses_are_used_as_servers:
  "call (fst (ApplyConfig \<lparr>InitGeoIP = None, GeoLookUp = geo, newCacheHandle = cache\<rparr>
                 static_rule_config fallback)) cancelled_ctx ''example.com'' w =
     Return (Some \<lparr>Typ = TypStatic, MappingDomain = ''example.com'', Domain = ''example.com'',
                   DNS_IP = [], Server = [udp_server (v4 1 2 3 4) 53],
                   CurrentServer = zero_DnsServer, CurrentIP = [], CurrentCountry = [],
                   ExpireAt = 0\<rparr>, w)
   \<and> call (fst (ApplyConfig \<lparr>InitGeoIP = None, GeoLookUp = geo, newCacheHandle = cache\<rparr>
                 static_rule_config fallback)) answering_ctx ''example.com'' w =
     Return (Some \<lparr>Typ = TypStatic, MappingDomain = ''example.com'', Domain = ''example.com'',
                   DNS_IP = [[9, 9, 9, 9]], Server = [udp_server (v4 1 2 3 4) 53],
                   CurrentServer = udp_server (v4 1 2 3 4) 53, CurrentIP = [],
                   CurrentCountry = [], ExpireAt = 0\<rparr>, w)
   \<and> call (fst (ApplyConfig \<lparr>InitGeoIP = None, GeoLookUp = geo, newCacheHandle = cache\<rparr>
                 static_rule_config fallback)) timeout_ctx ''example.com'' w = Panic"
  by (simp add: ApplyConfig_def static_rule_config_def newMappingHandle_def Parse_1234
      udp_server_def v4_def call_def mappingServerHandle_def mapping_match_def ResolveDomain_def
      cancelled_ctx_def answering_ctx_def timeout_ctx_def attempt_def timeout_network_def
      answering_network_def)

text \<open>
  Claim C2. The claim: when a string of the general server list does not parse,
  \<^verbatim>\<open>ApplyConfig\<close> returns an error and no chain. \<^verbatim>\<open>newGeneralHandle\<close> does return the
  error, with a nil handler; \<^verbatim>\<open>ApplyConfig\<close> drops the error, hands the nil handler to
  the cache constructor and returns what that built, with no error.
\<close>

theorem bad_general_server_is_not_reported:
  "ApplyConfig \<lparr>InitGeoIP = None, GeoLookUp = geo, newCacheHandle = cache\<rparr>
       bad_server_config fallback = (fst (cache None), None)
   \<and> newGeneralHandle geo (DNS_Servers bad_server_config) fallback =
       (None, Some (NotSupport ''tcp://1.1.1.1'' ''tcp''))"
  by (simp add: ApplyConfig_def bad_server_config_def newGeneralHandle_def Parse_tcp)

section \<open>Digits and decimal numbers\<close>

lemma Index_udp: "0 \<le> strings_Index (''udp://'' @ v) ''://''"
  by simp

lemma of_char_digits_dec: "k < 10 \<Longrightarrow> (of_char (digits k) :: nat) = 48 + k"
  by (simp add: digits_def)

lemma of_char_digits_hex: "10 \<le> k \<Longrightarrow> k < 16 \<Longrightarrow> (of_char (digits k) :: nat) = 87 + k"
  by (simp add: digits_def)

lemma isdigit_digits: "k < 10 \<Longrightarrow> isdigit (digits k)"
  by (simp add: isdigit_def of_char_digits_dec)

lemma ishex_digits: "k < 16 \<Longrightarrow> ishex (digits k)"
  by (cases "k < 10") (simp_all add: ishex_def isdigit_def of_char_digits_dec of_char_digits_hex)

lemma unhex_digits: "k < 16 \<Longrightarrow> unhex (digits k) = k"
  by (cases "k < 10") (simp_all add: unhex_def isdigit_def of_char_digits_dec of_char_digits_hex)

lemma digits_not_special:
  "k < 16 \<Longrightarrow> digits k \<noteq> CHR ''.'' \<and> digits k \<noteq> CHR '':'' \<and> digits k \<noteq> CHR ''%''"
proof -
  assume k: "k < 16"
  have "(of_char (digits k) :: nat) \<noteq> 46 \<and> (of_char (digits k) :: nat) \<noteq> 58
      \<and> (of_char (digits k) :: nat) \<noteq> 37"
    using k by (cases "k < 10") (simp_all add: of_char_digits_dec of_char_digits_hex)
  then show ?thesis by auto
qed

subsection \<open>Decimal numbers\<close>

lemma uitoa_digits: "list_all isdigit (uitoa n)"
proof (induction n rule: uitoa.induct)
  case (1 n)
  show ?case
  proof (cases "n < 10")
    case True
    then show ?thesis by (simp add: uitoa.simps [of n] isdigit_digits)
  next
    case False
    with 1 show ?thesis by (simp add: uitoa.simps [of n] isdigit_digits)
  qed
qed

lemma uitoa_nonempty: "uitoa n \<noteq> []"
  by (simp add: uitoa.simps [of n])

lemma dec_value_snoc: "dec_value (ds @ [c]) = dec_value ds * 10 + ((of_char c :: nat) - 48)"
  by (simp add: dec_value_def)

lemma dec_value_uitoa: "dec_value (uitoa n) = n"
proof (induction n rule: uitoa.induct)
  case (1 n)
  show ?case
  proof (cases "n < 10")
    case True
    then show ?thesis by (simp add: uitoa.simps [of n] dec_value_def of_char_digits_dec)
  next
    case False
    with 1 have "dec_value (uitoa (n div 10)) = n div 10" by simp
    with False show ?thesis
      by (simp add: uitoa.simps [of n] dec_value_snoc of_char_digits_dec)
  qed
qed

lemma isdigit_not_sign: "isdigit c \<Longrightarrow> c \<noteq> CHR ''-'' \<and> c \<noteq> CHR ''+''"
  by (auto simp: isdigit_def)

lemma Atoi_digits:
  assumes "ds \<noteq> []" "list_all isdigit ds"
  shows "strconv_Atoi ds = (if int (dec_value ds) \<le> 2 ^ 63 - 1 then Some (int (dec_value ds)) else None)"
proof -
  from assms obtain c cs where ds: "ds = c # cs" "isdigit c" by (cases ds) auto
  then have "\<not> prefix ''-'' ds" "\<not> prefix ''+'' ds"
    using isdigit_not_sign [of c] by auto
  moreover have "\<not> int (dec_value ds) < - (2 ^ 63)"
    by (smt (verit) of_nat_0_le_iff zero_less_power)
  ultimately show ?thesis using assms by (auto simp: strconv_Atoi_def Let_def)
qed

lemma Atoi_Itoa: "0 \<le> p \<Longrightarrow> p \<le> 2 ^ 63 - 1 \<Longrightarrow> strconv_Atoi (strconv_Itoa p) = Some p"
  by (simp add: strconv_Itoa_def Atoi_digits uitoa_nonempty uitoa_digits dec_value_uitoa)

lemma Itoa_digits: "0 \<le> p \<Longrightarrow> list_all isdigit (strconv_Itoa p) \<and> strconv_Itoa p \<noteq> []"
  by (simp add: strconv_Itoa_def uitoa_nonempty uitoa_digits)

section \<open>Addresses as text\<close>

subsection \<open>Dotted decimal\<close>

lemma appendDecimal_digits: "x \<le> 255 \<Longrightarrow> list_all isdigit (appendDecimal x)"
  by (simp add: appendDecimal_def isdigit_digits)

lemma appendDecimal_nonempty: "appendDecimal x \<noteq> []"
  by (simp add: appendDecimal_def)

lemma isdigit_dot: "\<not> isdigit (CHR ''.'')"
  by (simp add: isdigit_def)

lemma parseIPv4Fields_digit:
  "k < 10 \<Longrightarrow> \<not> (digLen = 1 \<and> val = 0) \<Longrightarrow> val * 10 + k \<le> 255 \<Longrightarrow>
     parseIPv4Fields (digits k # s) val digLen fs =
     parseIPv4Fields s (val * 10 + k) (digLen + 1) fs"
  by (auto simp: isdigit_digits of_char_digits_dec Let_def)

lemma parseIPv4Fields_octet:
  assumes "x \<le> 255"
  shows "parseIPv4Fields (appendDecimal x @ rest) 0 0 fs =
         parseIPv4Fields rest x (length (appendDecimal x)) fs"
proof -
  consider "x < 10" | "10 \<le> x" "x < 100" | "100 \<le> x" by linarith
  then show ?thesis
  proof cases
    case 1
    then show ?thesis
      by (simp add: appendDecimal_def parseIPv4Fields_digit del: parseIPv4Fields.simps)
  next
    case 2
    then have a: "x div 10 mod 10 = x div 10" "x div 10 < 10" "x div 10 \<noteq> 0"
      "x div 10 * 10 + x mod 10 = x"
      by auto
    from 2 have s: "appendDecimal x = [digits (x div 10), digits (x mod 10)]"
      by (simp add: appendDecimal_def a)
    have "parseIPv4Fields (appendDecimal x @ rest) 0 0 fs =
        parseIPv4Fields (digits (x mod 10) # rest) (x div 10) 1 fs"
      using a parseIPv4Fields_digit [of "x div 10" 0 0 _ fs] by (simp add: s del: parseIPv4Fields.simps)
    also have "\<dots> = parseIPv4Fields rest x 2 fs"
      using a assms parseIPv4Fields_digit [of "x mod 10" 1 "x div 10" rest fs]
      by (simp add: numeral_2_eq_2 numeral_3_eq_3 del: parseIPv4Fields.simps)
    finally show ?thesis by (simp add: s numeral_2_eq_2 numeral_3_eq_3)
  next
    case 3
    have "x div 100 = x div 10 div 10" by (simp add: div_mult2_eq)
    then have b: "x div 100 * 10 + x div 10 mod 10 = x div 10" by simp
    from 3 assms have a: "x div 100 < 10" "x div 100 \<noteq> 0" "x div 10 mod 10 < 10"
      "x div 10 * 10 + x mod 10 = x" "x div 10 \<le> 255"
      by simp_all
    note a = a b
    from 3 assms have s: "appendDecimal x = [digits (x div 100), digits (x div 10 mod 10), digits (x mod 10)]"
      by (simp add: appendDecimal_def)
    have "parseIPv4Fields (appendDecimal x @ rest) 0 0 fs =
        parseIPv4Fields (digits (x div 10 mod 10) # digits (x mod 10) # rest) (x div 100) 1 fs"
      using a parseIPv4Fields_digit [of "x div 100" 0 0 _ fs] by (simp add: s del: parseIPv4Fields.simps)
    also have "\<dots> = parseIPv4Fields (digits (x mod 10) # rest) (x div 10) 2 fs"
      using a parseIPv4Fields_digit [of "x div 10 mod 10" 1 "x div 100" _ fs]
      by (simp add: numeral_2_eq_2 numeral_3_eq_3 del: parseIPv4Fields.simps)
    also have "\<dots> = parseIPv4Fields rest x 3 fs"
      using a assms parseIPv4Fields_digit [of "x mod 10" 2 "x div 10" rest fs]
      by (simp add: numeral_2_eq_2 numeral_3_eq_3 del: parseIPv4Fields.simps)
    finally show ?thesis by (simp add: s numeral_2_eq_2 numeral_3_eq_3)
  qed
qed

lemma parseIPv4Fields_dot:
  "digLen \<noteq> 0 \<Longrightarrow> s \<noteq> [] \<Longrightarrow> length fs < 3 \<Longrightarrow>
     parseIPv4Fields (CHR ''.'' # s) val digLen fs = parseIPv4Fields s 0 0 (fs @ [val])"
  by (simp add: isdigit_dot)

lemma parseIPv4Fields_dotted:
  assumes "a \<le> 255" "b \<le> 255" "c \<le> 255" "d \<le> 255"
  shows "parseIPv4Fields (dotted a b c d) 0 0 [] = Some [a, b, c, d]"
proof -
  have n: "\<And>x. length (appendDecimal x) \<noteq> 0" by (simp add: appendDecimal_nonempty)
  have "parseIPv4Fields (dotted a b c d) 0 0 [] =
      parseIPv4Fields (appendDecimal b @ ''.'' @ appendDecimal c @ ''.'' @ appendDecimal d) 0 0 [a]"
    unfolding dotted_def
    by (simp add: parseIPv4Fields_octet [OF assms(1)] parseIPv4Fields_dot n appendDecimal_nonempty
        del: parseIPv4Fields.simps)
  also have "\<dots> = parseIPv4Fields (appendDecimal c @ ''.'' @ appendDecimal d) 0 0 [a, b]"
    by (simp add: parseIPv4Fields_octet [OF assms(2)] parseIPv4Fields_dot n appendDecimal_nonempty
        del: parseIPv4Fields.simps)
  also have "\<dots> = parseIPv4Fields (appendDecimal d) 0 0 [a, b, c]"
    by (simp add: parseIPv4Fields_octet [OF assms(3)] parseIPv4Fields_dot n appendDecimal_nonempty
        del: parseIPv4Fields.simps)
  also have "\<dots> = Some [a, b, c, d]"
    using parseIPv4Fields_octet [OF assms(4), of "[]" "[a, b, c]"] by simp
  finally show ?thesis .
qed

lemma first_special_after_digits:
  "list_all isdigit xs \<Longrightarrow>
     dropWhile (\<lambda>c. c \<noteq> CHR ''.'' \<and> c \<noteq> CHR '':'' \<and> c \<noteq> CHR ''%'') (xs @ CHR ''.'' # rest)
       = CHR ''.'' # rest"
  by (induction xs) (auto simp: isdigit_def)

lemma ParseIP_dotted:
  assumes "a \<le> 255" "b \<le> 255" "c \<le> 255" "d \<le> 255"
  shows "net_ParseIP (dotted a b c d) = v4InV6Prefix @ [a, b, c, d]"
proof -
  have "dropWhile (\<lambda>c. c \<noteq> CHR ''.'' \<and> c \<noteq> CHR '':'' \<and> c \<noteq> CHR ''%'') (dotted a b c d)
      = CHR ''.'' # (appendDecimal b @ ''.'' @ appendDecimal c @ ''.'' @ appendDecimal d)"
    unfolding dotted_def
    using first_special_after_digits [OF appendDecimal_digits [OF assms(1)]] by simp
  then show ?thesis
    by (simp add: net_ParseIP_def parseIPv4Fields_dotted [OF assms])
qed

subsection \<open>Hexadecimal fields\<close>

lemma hexfield_digit:
  "k < 16 \<Longrightarrow> off \<le> 3 \<Longrightarrow> acc * 16 + k \<le> 65535 \<Longrightarrow>
     hexfield (digits k # s) acc off = hexfield s (acc * 16 + k) (Suc off)"
  by (simp add: ishex_digits unhex_digits Let_def)

lemma hexfield_stop:
  "rest = [] \<or> \<not> ishex (hd rest) \<Longrightarrow> hexfield rest acc off = Some (acc, off)"
  by (cases rest) auto

lemma appendHex_cases:
  assumes "g < 65536"
  obtains "g < 16" "appendHex g = [digits g]"
  | "16 \<le> g" "g < 256" "appendHex g = [digits (g div 16), digits (g mod 16)]"
  | "256 \<le> g" "g < 4096" "appendHex g = [digits (g div 256), digits (g div 16 mod 16), digits (g mod 16)]"
  | "4096 \<le> g" "appendHex g = [digits (g div 4096), digits (g div 256 mod 16), digits (g div 16 mod 16), digits (g mod 16)]"
proof -
  consider "g < 16" | "16 \<le> g" "g < 256" | "256 \<le> g" "g < 4096" | "4096 \<le> g" by linarith
  then show ?thesis
  proof cases
    case 1 then show ?thesis using that(1) by (simp add: appendHex_def)
  next
    case 2 then show ?thesis using that(2) by (simp add: appendHex_def)
  next
    case 3 then show ?thesis using that(3) by (simp add: appendHex_def)
  next
    case 4 then show ?thesis using that(4) by (simp add: appendHex_def)
  qed
qed

lemma appendHex_nonempty: "appendHex g \<noteq> []"
  by (simp add: appendHex_def)

lemma appendHex_hex: "g < 65536 \<Longrightarrow> list_all ishex (appendHex g)"
  by (simp add: appendHex_def ishex_digits)

lemma hexfield_appendHex:
  assumes "g < 65536" and "rest = [] \<or> \<not> ishex (hd rest)"
  shows "hexfield (appendHex g @ rest) 0 0 = Some (g, length (appendHex g))"
  using assms(1)
proof (cases rule: appendHex_cases)
  case 1
  then show ?thesis
    using hexfield_digit [of g 0 0 rest] hexfield_stop [OF assms(2)]
    by (simp del: hexfield.simps)
next
  case 2
  have a: "g div 16 < 16" "g div 16 * 16 + g mod 16 = g" using 2 by simp_all
  have "hexfield (appendHex g @ rest) 0 0 = hexfield (digits (g mod 16) # rest) (g div 16) (Suc 0)"
    using a hexfield_digit [of "g div 16" 0 0] by (simp add: 2 del: hexfield.simps)
  also have "\<dots> = hexfield rest g (Suc (Suc 0))"
    using a assms(1) hexfield_digit [of "g mod 16" "Suc 0" "g div 16" rest]
    by (simp del: hexfield.simps)
  finally show ?thesis using hexfield_stop [OF assms(2)] by (simp add: 2)
next
  case 3
  have d: "g div 256 = g div 16 div 16" by (simp add: div_mult2_eq)
  have a: "g div 256 < 16" "g div 16 mod 16 < 16" "g div 16 * 16 + g mod 16 = g"
    "g div 256 * 16 + g div 16 mod 16 = g div 16" "g div 16 \<le> 65535"
    using 3 assms(1) by (simp_all add: d)
  have "hexfield (appendHex g @ rest) 0 0 =
      hexfield (digits (g div 16 mod 16) # digits (g mod 16) # rest) (g div 256) (Suc 0)"
    using a hexfield_digit [of "g div 256" 0 0] by (simp add: 3 del: hexfield.simps)
  also have "\<dots> = hexfield (digits (g mod 16) # rest) (g div 16) (Suc (Suc 0))"
    using a hexfield_digit [of "g div 16 mod 16" "Suc 0" "g div 256"]
    by (simp del: hexfield.simps)
  also have "\<dots> = hexfield rest g (Suc (Suc (Suc 0)))"
    using a assms(1) hexfield_digit [of "g mod 16" "Suc (Suc 0)" "g div 16" rest]
    by (simp del: hexfield.simps)
  finally show ?thesis using hexfield_stop [OF assms(2)] by (simp add: 3)
next
  case 4
  have d: "g div 256 = g div 16 div 16" "g div 4096 = g div 256 div 16"
    by (simp_all add: div_mult2_eq)
  have a: "g div 4096 < 16" "g div 256 mod 16 < 16" "g div 16 mod 16 < 16"
    "g div 16 * 16 + g mod 16 = g" "g div 256 * 16 + g div 16 mod 16 = g div 16"
    "g div 4096 * 16 + g div 256 mod 16 = g div 256" "g div 16 \<le> 65535" "g div 256 \<le> 65535"
    using 4 assms(1) by (simp_all add: d)
  have "hexfield (appendHex g @ rest) 0 0 =
      hexfield (digits (g div 256 mod 16) # digits (g div 16 mod 16) # digits (g mod 16) # rest)
        (g div 4096) (Suc 0)"
    using a hexfield_digit [of "g div 4096" 0 0] by (simp add: 4 del: hexfield.simps)
  also have "\<dots> = hexfield (digits (g div 16 mod 16) # digits (g mod 16) # rest) (g div 256) (Suc (Suc 0))"
    using a hexfield_digit [of "g div 256 mod 16" "Suc 0" "g div 4096"]
    by (simp del: hexfield.simps)
  also have "\<dots> = hexfield (digits (g mod 16) # rest) (g div 16) (Suc (Suc (Suc 0)))"
    using a hexfield_digit [of "g div 16 mod 16" "Suc (Suc 0)" "g div 256"]
    by (simp del: hexfield.simps)
  also have "\<dots> = hexfield rest g (Suc (Suc (Suc (Suc 0))))"
    using a assms(1) hexfield_digit [of "g mod 16" "Suc (Suc (Suc 0))" "g div 16" rest]
    by (simp del: hexfield.simps)
  finally show ?thesis using hexfield_stop [OF assms(2)] by (simp add: 4)
qed

lemma ishex_colon: "\<not> ishex (CHR '':'')"
  by (simp add: ishex_def isdigit_def)

lemma parseIPv6_loop_field:
  assumes "g < 65536" and "length ip < 16" and "rest = [] \<or> hd rest = CHR '':''"
  shows "parseIPv6_loop (appendHex g @ rest) ip e =
     (if rest = [] then Some ([], ip @ [g div 256, g mod 256], e)
      else if length rest = 1 then None
      else if hd (tl rest) = CHR '':'' then
        (if e \<noteq> None then None
         else if tl (tl rest) = [] then
           Some ([], ip @ [g div 256, g mod 256], Some (length (ip @ [g div 256, g mod 256])))
         else parseIPv6_loop (tl (tl rest)) (ip @ [g div 256, g mod 256])
                (Some (length (ip @ [g div 256, g mod 256]))))
      else parseIPv6_loop (tl rest) (ip @ [g div 256, g mod 256]) e)"
proof -
  have stop: "rest = [] \<or> \<not> ishex (hd rest)"
    using assms(3) ishex_colon by auto
  have h: "hexfield (appendHex g @ rest) 0 0 = Some (g, length (appendHex g))"
    by (rule hexfield_appendHex [OF assms(1) stop])
  have n: "length (appendHex g) \<noteq> 0" by (simp add: appendHex_nonempty)
  have dot: "\<not> (length (appendHex g) < length (appendHex g @ rest)
      \<and> (appendHex g @ rest) ! length (appendHex g) = CHR ''.'')"
    using assms(3) by (cases rest) (auto simp: nth_append)
  show ?thesis
    apply (subst parseIPv6_loop.simps)
    apply (simp only: h option.case prod.case assms(2) if_True n dot if_False Let_def
        drop_append drop_all order_refl diff_self_eq_0 drop_0 append_Nil)
    using assms(3) apply (cases rest)
     apply simp_all
    done
qed

lemma joined_Cons: "joined (g # gs) = appendHex g @ (if gs = [] then [] else CHR '':'' # joined gs)"
  by (cases gs) (simp_all add: joined_def)

lemma joined_nonempty: "gs \<noteq> [] \<Longrightarrow> joined gs \<noteq> []"
  by (cases gs) (simp_all add: joined_Cons appendHex_nonempty)

lemma hd_joined_hex: "gs \<noteq> [] \<Longrightarrow> \<forall>g\<in>set gs. g < 65536 \<Longrightarrow> ishex (hd (joined gs))"
proof -
  assume "gs \<noteq> []" and v: "\<forall>g\<in>set gs. g < 65536"
  then obtain g gs' where gs: "gs = g # gs'" by (cases gs) auto
  have "ishex (hd (appendHex g))"
    using appendHex_hex [of g] v appendHex_nonempty [of g] by (cases "appendHex g") (auto simp: gs)
  then show ?thesis by (simp add: gs joined_Cons appendHex_nonempty)
qed

lemma hd_joined_not_colon: "gs \<noteq> [] \<Longrightarrow> \<forall>g\<in>set gs. g < 65536 \<Longrightarrow> hd (joined gs) \<noteq> CHR '':''"
  using hd_joined_hex ishex_colon by metis

lemma bytes_of_Cons: "bytes_of (g # gs) = g div 256 # g mod 256 # bytes_of gs"
  by (simp add: bytes_of_def)

lemma length_bytes_of: "length (bytes_of gs) = 2 * length gs"
  by (induction gs) (simp_all add: bytes_of_def)

lemma parseIPv6_loop_joined:
  "gs \<noteq> [] \<Longrightarrow> \<forall>g\<in>set gs. g < 65536 \<Longrightarrow> length ip + 2 * length gs \<le> 16 \<Longrightarrow>
     parseIPv6_loop (joined gs) ip e = Some ([], ip @ bytes_of gs, e)"
proof (induction gs arbitrary: ip)
  case Nil
  then show ?case by simp
next
  case (Cons g gs)
  show ?case
  proof (cases "gs = []")
    case True
    with Cons.prems show ?thesis
      using parseIPv6_loop_field [of g ip "[]" e]
      by (simp add: joined_Cons bytes_of_def)
  next
    case False
    from Cons.prems have v: "\<forall>g\<in>set gs. g < 65536" by simp
    have nc: "hd (joined gs) \<noteq> CHR '':''" by (rule hd_joined_not_colon [OF False v])
    have ne: "joined gs \<noteq> []" by (rule joined_nonempty [OF False])
    have "parseIPv6_loop (joined (g # gs)) ip e =
        parseIPv6_loop (joined gs) (ip @ [g div 256, g mod 256]) e"
      using Cons.prems False nc ne parseIPv6_loop_field [of g ip "CHR '':'' # joined gs" e]
      by (simp add: joined_Cons)
    also have "\<dots> = Some ([], (ip @ [g div 256, g mod 256]) @ bytes_of gs, e)"
      using Cons.prems by (intro Cons.IH [OF False v]) simp
    finally show ?thesis by (simp add: bytes_of_Cons)
  qed
qed

lemma parseIPv6_loop_ellipsis:
  "xs \<noteq> [] \<Longrightarrow> \<forall>g\<in>set xs. g < 65536 \<Longrightarrow> \<forall>g\<in>set ys. g < 65536 \<Longrightarrow>
   length ip + 2 * length xs + 2 * length ys < 16 \<Longrightarrow>
     parseIPv6_loop (joined xs @ ''::'' @ joined ys) ip None =
       Some ([], ip @ bytes_of xs @ bytes_of ys, Some (length ip + 2 * length xs))"
proof (induction xs arbitrary: ip)
  case Nil
  then show ?case by simp
next
  case (Cons g xs)
  show ?case
  proof (cases "xs = []")
    case True
    show ?thesis
    proof (cases "ys = []")
      case True
      with \<open>xs = []\<close> Cons.prems show ?thesis
        using parseIPv6_loop_field [of g ip "''::''" None]
        by (simp add: joined_Cons bytes_of_def joined_def)
    next
      case False
      have ne: "joined ys \<noteq> []" by (rule joined_nonempty [OF False])
      have "parseIPv6_loop (joined (g # xs) @ ''::'' @ joined ys) ip None =
          parseIPv6_loop (joined ys) (ip @ [g div 256, g mod 256]) (Some (length ip + 2))"
        using Cons.prems \<open>xs = []\<close> ne parseIPv6_loop_field [of g ip "''::'' @ joined ys" None]
        by (simp add: joined_Cons)
      also have "\<dots> = Some ([], (ip @ [g div 256, g mod 256]) @ bytes_of ys, Some (length ip + 2))"
        using Cons.prems by (intro parseIPv6_loop_joined [OF False]) simp_all
      finally show ?thesis using \<open>xs = []\<close> by (simp add: bytes_of_def)
    qed
  next
    case False
    from Cons.prems have v: "\<forall>g\<in>set xs. g < 65536" by simp
    have nc: "hd (joined xs) \<noteq> CHR '':''" by (rule hd_joined_not_colon [OF False v])
    have ne: "joined xs \<noteq> []" by (rule joined_nonempty [OF False])
    have "parseIPv6_loop (joined (g # xs) @ ''::'' @ joined ys) ip None =
        parseIPv6_loop (joined xs @ ''::'' @ joined ys) (ip @ [g div 256, g mod 256]) None"
      using Cons.prems False nc ne
        parseIPv6_loop_field [of g ip "CHR '':'' # joined xs @ ''::'' @ joined ys" None]
      by (simp add: joined_Cons hd_append)
    also have "\<dots> = Some ([], (ip @ [g div 256, g mod 256]) @ bytes_of xs @ bytes_of ys,
        Some (length (ip @ [g div 256, g mod 256]) + 2 * length xs))"
      using Cons.prems by (intro Cons.IH [OF False v]) simp_all
    finally show ?thesis by (simp add: bytes_of_Cons)
  qed
qed

subsection \<open>The run of zero fields\<close>

lemma takeWhile_zero: "takeWhile (\<lambda>g. g = 0) xs = replicate (length (takeWhile (\<lambda>g. g = (0::nat)) xs)) 0"
  by (induction xs) auto

lemma take_zero_prefix:
  "take (length (takeWhile (\<lambda>g. g = (0::nat)) xs)) xs = replicate (length (takeWhile (\<lambda>g. g = 0) xs)) 0"
proof -
  have "take (length (takeWhile (\<lambda>g. g = (0::nat)) xs)) xs = takeWhile (\<lambda>g. g = 0) xs"
    by (induction xs) auto
  then show ?thesis using takeWhile_zero [of xs] by simp
qed

lemma span_step_run:
  assumes "zero_run gs z" and "i \<le> length gs"
  shows "zero_run gs (span_step gs z i)"
proof -
  obtain zs ze where z: "z = (zs, ze)" by (cases z)
  let ?n = "length (takeWhile (\<lambda>g. g = 0) (drop i gs))"
  have "?n \<le> length (drop i gs)" by (rule length_takeWhile_le)
  then have le: "i + ?n \<le> length gs" using assms(2) by simp
  have "take ?n (drop i gs) = replicate ?n 0" by (rule take_zero_prefix)
  with le assms(1) show ?thesis
    by (simp add: span_step_def z zero_run_def Let_def)
qed

lemma foldl_span_run:
  "zero_run gs z \<Longrightarrow> \<forall>i\<in>set is. i \<le> length gs \<Longrightarrow> zero_run gs (foldl (span_step gs) z is)"
  by (induction "is" arbitrary: z) (simp_all add: span_step_run)

lemma zero_span_run: "length gs = 8 \<Longrightarrow> zero_run gs (zero_span gs)"
proof -
  assume l: "length gs = 8"
  have "zero_span gs = foldl (span_step gs) (255, 255) [0..<8]"
    by (simp add: zero_span_def span_step_def)
  moreover have "zero_run gs (255, 255)" by (simp add: zero_run_def)
  ultimately show ?thesis using foldl_span_run [of gs "(255, 255)" "[0..<8]"] l by simp
qed

lemma zero_span_split:
  assumes "length gs = 8" and "zero_span gs = (zs, ze)" and "zs < 8"
  shows "zs + 2 \<le> ze \<and> ze \<le> 8 \<and> gs = take zs gs @ replicate (ze - zs) 0 @ drop ze gs"
proof -
  from zero_span_run [OF assms(1)] assms(2,3,1)
  have r: "zs + 2 \<le> ze" "ze \<le> 8" "take (ze - zs) (drop zs gs) = replicate (ze - zs) 0"
    by (auto simp: zero_run_def)
  have "gs = take zs gs @ drop zs gs" by simp
  also have "drop zs gs = take (ze - zs) (drop zs gs) @ drop (ze - zs) (drop zs gs)"
    by (rule append_take_drop_id [symmetric])
  also have "drop (ze - zs) (drop zs gs) = drop ze gs" using r(1) by simp
  finally show ?thesis using r by simp
qed

lemma bytes_of_Nil [simp]: "bytes_of [] = []"
  by (simp add: bytes_of_def)

lemma bytes_of_append: "bytes_of (xs @ ys) = bytes_of xs @ bytes_of ys"
  by (simp add: bytes_of_def)

lemma bytes_of_zeros: "bytes_of (replicate n 0) = replicate (2 * n) 0"
  by (induction n) (simp_all add: bytes_of_def)

subsection \<open>IPv6 text\<close>

lemma parseIPv6_plain:
  assumes "s0 \<noteq> []" and "hd s0 \<noteq> CHR '':''"
    and "parseIPv6_loop s0 [] None = Some ([], ip, e)"
  shows "parseIPv6 s0 =
     (if length ip < 16 then
        (case e of None \<Rightarrow> None
         | Some k \<Rightarrow> Some (take k ip @ replicate (16 - length ip) 0 @ drop k ip))
      else if e \<noteq> None then None else Some ip)"
proof -
  from assms(1,2) obtain c cs where s0: "s0 = c # cs" "c \<noteq> CHR '':''" by (cases s0) auto
  show ?thesis
    using assms(3) by (simp add: parseIPv6_def Let_def s0)
qed

lemma parseIPv6_lead:
  "parseIPv6 (''::'' @ t) =
     (if t = [] then Some (replicate 16 0)
      else (case parseIPv6_loop t [] (Some 0) of
              None \<Rightarrow> None
            | Some (rest, ip, ellipsis) \<Rightarrow>
                if rest \<noteq> [] then None
                else if length ip < 16 then
                  (case ellipsis of
                     None \<Rightarrow> None
                   | Some e \<Rightarrow> Some (take e ip @ replicate (16 - length ip) 0 @ drop e ip))
                else if ellipsis \<noteq> None then None
                else Some ip))"
  by (simp add: parseIPv6_def Let_def)

lemma parseIPv6_string6:
  assumes l: "length gs = 8" and v: "\<forall>g\<in>set gs. g < 65536"
  shows "parseIPv6 (string6 gs) = Some (bytes_of gs)"
proof -
  obtain zs ze where z: "zero_span gs = (zs, ze)" by (cases "zero_span gs")
  show ?thesis
  proof (cases "zs < 8")
    case False
    from l have ne: "gs \<noteq> []" by auto
    have s: "string6 gs = joined gs" using False by (simp add: string6_def z joined_def)
    have nc: "hd (joined gs) \<noteq> CHR '':''" by (rule hd_joined_not_colon [OF ne v])
    have "parseIPv6_loop (joined gs) [] None = Some ([], bytes_of gs, None)"
      using l parseIPv6_loop_joined [OF ne v, of "[]" None] by simp
    from parseIPv6_plain [OF joined_nonempty [OF ne] nc this]
    show ?thesis using l by (simp add: s length_bytes_of)
  next
    case True
    from zero_span_split [OF l z True]
    have r: "zs + 2 \<le> ze" "ze \<le> 8" and g: "gs = take zs gs @ replicate (ze - zs) 0 @ drop ze gs"
      by simp_all
    let ?xs = "take zs gs" and ?ys = "drop ze gs"
    have vx: "\<forall>g\<in>set ?xs. g < 65536" using v by (meson in_set_takeD)
    have vy: "\<forall>g\<in>set ?ys. g < 65536" using v by (meson in_set_dropD)
    have s: "string6 gs = joined ?xs @ ''::'' @ joined ?ys"
      using True by (simp add: string6_def z joined_def)
    have b: "bytes_of gs = bytes_of ?xs @ replicate (2 * (ze - zs)) 0 @ bytes_of ?ys"
      by (subst g) (simp only: bytes_of_append bytes_of_zeros)
    have lx: "length ?xs = zs" using True l by simp
    have ly: "length ?ys = 8 - ze" using l by simp
    show ?thesis
    proof (cases "zs = 0")
      case True
      then have s0: "string6 gs = ''::'' @ joined ?ys" by (simp add: s joined_def)
      show ?thesis
      proof (cases "?ys = []")
        case True
        with ly r have "ze = 8" by simp
        with \<open>zs = 0\<close> b True have "bytes_of gs = replicate 16 0" by (simp add: bytes_of_def)
        moreover have "parseIPv6 (''::'' @ []) = Some (replicate 16 0)"
          by (subst parseIPv6_lead) simp
        ultimately show ?thesis using True by (simp add: s0 joined_def)
      next
        case False
        have "parseIPv6_loop (joined ?ys) [] (Some 0) = Some ([], bytes_of ?ys, Some 0)"
          using ly parseIPv6_loop_joined [OF False vy, of "[]" "Some 0"] by simp
        moreover have "joined ?ys \<noteq> []" by (rule joined_nonempty [OF False])
        moreover have "16 - 2 * (8 - ze) = 2 * ze" using r by simp
        ultimately show ?thesis
          using r ly \<open>zs = 0\<close>
          by (simp add: s0 parseIPv6_lead length_bytes_of b del: append.simps)
      qed
    next
      case False
      then have ne: "?xs \<noteq> []" using l by auto
      have nc: "hd (joined ?xs) \<noteq> CHR '':''" by (rule hd_joined_not_colon [OF ne vx])
      have n0: "string6 gs \<noteq> []" using joined_nonempty [OF ne] by (simp add: s)
      have nc': "hd (string6 gs) \<noteq> CHR '':''" using nc joined_nonempty [OF ne] by (simp add: s)
      have "parseIPv6_loop (string6 gs) [] None =
          Some ([], bytes_of ?xs @ bytes_of ?ys, Some (2 * zs))"
        using lx ly r parseIPv6_loop_ellipsis [OF ne vx vy, of "[]"] by (simp add: s)
      from parseIPv6_plain [OF n0 nc' this]
      have "parseIPv6 (string6 gs) =
          Some (take (2 * zs) (bytes_of ?xs @ bytes_of ?ys) @
                replicate (16 - (2 * zs + 2 * (8 - ze))) 0 @
                drop (2 * zs) (bytes_of ?xs @ bytes_of ?ys))"
        using r lx ly by (simp add: length_bytes_of)
      moreover have "16 - (2 * zs + 2 * (8 - ze)) = 2 * (ze - zs)" using r by simp
      ultimately show ?thesis
        using lx by (simp add: b length_bytes_of)
    qed
  qed
qed

subsection \<open>What net.ParseIP returns\<close>

lemma parseIPv4Fields_valid:
  "parseIPv4Fields s val digLen fs = Some f \<Longrightarrow> val \<le> 255 \<Longrightarrow> length fs \<le> 3 \<Longrightarrow>
     list_all (\<lambda>b. b < 256) fs \<Longrightarrow> length f = 4 \<and> list_all (\<lambda>b. b < 256) f"
proof (induction s arbitrary: val digLen fs)
  case Nil
  then show ?case by (auto split: if_splits)
next
  case (Cons c s)
  show ?case
  proof (cases "isdigit c")
    case True
    with Cons.prems(1) have "parseIPv4Fields s (val * 10 + ((of_char c :: nat) - 48)) (digLen + 1) fs = Some f"
      and "val * 10 + ((of_char c :: nat) - 48) \<le> 255"
      by (auto simp: Let_def split: if_splits)
    then show ?thesis using Cons.IH Cons.prems(3,4) by blast
  next
    case False
    with Cons.prems(1) have "parseIPv4Fields s 0 0 (fs @ [val]) = Some f" and "length fs \<noteq> 3"
      by (auto split: if_splits)
    moreover have "length (fs @ [val]) \<le> 3" using \<open>length fs \<noteq> 3\<close> Cons.prems(3) by simp
    moreover have "list_all (\<lambda>b. b < 256) (fs @ [val])" using Cons.prems(2,4) by simp
    ultimately show ?thesis using Cons.IH [of 0 0 "fs @ [val]"] by simp
  qed
qed

lemma hexfield_bound:
  "hexfield s acc off = Some (a, n) \<Longrightarrow> acc \<le> 65535 \<Longrightarrow> a \<le> 65535"
  by (induction s arbitrary: acc off) (auto simp: Let_def split: if_splits)

lemma parseIPv6_loop_valid:
  "parseIPv6_loop s ip e = Some (rest, ip', e') \<Longrightarrow> even (length ip) \<Longrightarrow> length ip \<le> 16 \<Longrightarrow>
     list_all (\<lambda>b. b < 256) ip \<Longrightarrow> length ip' \<le> 16 \<and> list_all (\<lambda>b. b < 256) ip'"
proof (induction s ip e rule: parseIPv6_loop.induct)
  case (1 s ip e)
  show ?case
  proof (cases "length ip < 16")
    case False
    with "1.prems" show ?thesis by (simp add: parseIPv6_loop.simps [of s ip e])
  next
    case True
    with "1.prems"(2) have l14: "length ip + 2 \<le> 16" by presburger
    from True "1.prems"(1) obtain acc off where h: "hexfield s 0 0 = Some (acc, off)"
      by (auto simp: parseIPv6_loop.simps [of s ip e] split: option.splits)
    from hexfield_bound [OF h] have acc: "acc \<le> 65535" by simp
    let ?ip = "ip @ [acc div 256, acc mod 256]"
    have v: "list_all (\<lambda>b. b < 256) ?ip" "even (length ?ip)" "length ?ip \<le> 16"
      using acc "1.prems"(2,4) l14 by simp_all
    from True "1.prems"(1) h have off: "off \<noteq> 0"
      by (auto simp: parseIPv6_loop.simps [of s ip e] split: if_splits)
    show ?thesis
    proof (cases "off < length s \<and> s ! off = CHR ''.''")
      case dot: True
      with True h off "1.prems"(1) obtain f where f: "parseIPv4Fields s 0 0 [] = Some f"
        and r: "ip' = ip @ f" and l: "length ip + 4 \<le> 16"
        by (auto simp: parseIPv6_loop.simps [of s ip e] split: if_splits option.splits)
      from parseIPv4Fields_valid [OF f] have "length f = 4" "list_all (\<lambda>b. b < 256) f" by simp_all
      with r l "1.prems"(4) show ?thesis by simp
    next
      case nodot: False
      let ?s1 = "drop off s"
      show ?thesis
      proof (cases "?s1 = []")
        case True
        with \<open>length ip < 16\<close> h off nodot "1.prems"(1) have "ip' = ?ip"
          by (auto simp: parseIPv6_loop.simps [of s ip e] Let_def split: if_splits)
        with v show ?thesis by simp
      next
        case s1: False
        from \<open>length ip < 16\<close> h off nodot s1 "1.prems"(1)
        have c: "hd ?s1 = CHR '':''" "length ?s1 \<noteq> 1"
          by (auto simp: parseIPv6_loop.simps [of s ip e] Let_def split: if_splits)
        show ?thesis
        proof (cases "hd (tl ?s1) = CHR '':''")
          case True
          show ?thesis
          proof (cases "tl (tl ?s1) = []")
            case True
            with \<open>length ip < 16\<close> h off nodot s1 c \<open>hd (tl ?s1) = CHR '':''\<close> "1.prems"(1)
            have "ip' = ?ip"
              by (auto simp: parseIPv6_loop.simps [of s ip e] Let_def split: if_splits)
            with v show ?thesis by simp
          next
            case False
            with \<open>length ip < 16\<close> h off nodot s1 c \<open>hd (tl ?s1) = CHR '':''\<close> "1.prems"(1)
            have e: "e = None"
              and p: "parseIPv6_loop (tl (tl ?s1)) ?ip (Some (length ?ip)) = Some (rest, ip', e')"
              by (auto simp: parseIPv6_loop.simps [of s ip e] Let_def split: if_splits)
            show ?thesis
              by (rule "1.IH"(1) [OF \<open>length ip < 16\<close> h refl off nodot refl refl s1 _ _ _ _ _ p v(2,3,1)])
                 (use c True e False in simp_all)
          qed
        next
          case False
          with \<open>length ip < 16\<close> h off nodot s1 c "1.prems"(1)
          have p: "parseIPv6_loop (tl ?s1) ?ip e = Some (rest, ip', e')"
            by (auto simp: parseIPv6_loop.simps [of s ip e] Let_def split: if_splits)
          show ?thesis
            by (rule "1.IH"(2) [OF \<open>length ip < 16\<close> h refl off nodot refl refl s1 _ _ _ p v(2,3,1)])
               (use c False in simp_all)
        qed
      qed
    qed
  qed
qed

lemma parseIPv6_valid: "parseIPv6 s = Some ip \<Longrightarrow> valid_ip ip"
proof -
  assume a0: "parseIPv6 s = Some ip"
  define lead where "lead = (length s \<ge> 2 \<and> s ! 0 = CHR '':'' \<and> s ! 1 = CHR '':'')"
  define t where "t = (if lead then drop 2 s else s)"
  have "parseIPv6 s =
      (if lead \<and> t = [] then Some (replicate 16 0)
       else (case parseIPv6_loop t [] (if lead then Some 0 else None) of
               None \<Rightarrow> None
             | Some (rest, ip, ellipsis) \<Rightarrow>
                 if rest \<noteq> [] then None
                 else if length ip < 16 then
                   (case ellipsis of
                      None \<Rightarrow> None
                    | Some e \<Rightarrow> Some (take e ip @ replicate (16 - length ip) 0 @ drop e ip))
                 else if ellipsis \<noteq> None then None
                 else Some ip))"
    by (simp only: parseIPv6_def Let_def lead_def t_def)
  with a0 have a: "(if lead \<and> t = [] then Some (replicate 16 0)
       else (case parseIPv6_loop t [] (if lead then Some 0 else None) of
               None \<Rightarrow> None
             | Some (rest, ip, ellipsis) \<Rightarrow>
                 if rest \<noteq> [] then None
                 else if length ip < 16 then
                   (case ellipsis of
                      None \<Rightarrow> None
                    | Some e \<Rightarrow> Some (take e ip @ replicate (16 - length ip) 0 @ drop e ip))
                 else if ellipsis \<noteq> None then None
                 else Some ip)) = Some ip"
    by simp
  show ?thesis
  proof (cases "lead \<and> t = []")
    case True
    with a have "ip = replicate 16 0" by simp
    then show ?thesis by (simp add: valid_ip_def list_all_iff)
  next
    case False
    with a obtain rest ip0 e where p: "parseIPv6_loop t [] (if lead then Some 0 else None) = Some (rest, ip0, e)"
      and r: "(if rest \<noteq> [] then None
               else if length ip0 < 16 then
                 (case e of None \<Rightarrow> None
                  | Some k \<Rightarrow> Some (take k ip0 @ replicate (16 - length ip0) 0 @ drop k ip0))
               else if e \<noteq> None then None else Some ip0) = Some ip"
      by (auto split: option.splits if_splits)
    from parseIPv6_loop_valid [OF p] have v: "length ip0 \<le> 16" "list_all (\<lambda>b. b < 256) ip0" by simp_all
    show ?thesis
    proof (cases "length ip0 < 16")
      case True
      with r obtain k where ip: "ip = take k ip0 @ replicate (16 - length ip0) 0 @ drop k ip0"
        by (auto split: if_splits option.splits)
      have "list_all (\<lambda>b. b < 256) (take k ip0)" "list_all (\<lambda>b. b < 256) (drop k ip0)"
        using v(2) by (auto simp: list_all_iff dest: in_set_takeD in_set_dropD)
      then have "list_all (\<lambda>b. b < 256) ip" by (auto simp: ip list_all_iff)
      moreover have "length ip = 16" using True by (simp add: ip)
      ultimately show ?thesis by (simp add: valid_ip_def)
    next
      case False
      with r v show ?thesis by (auto simp: valid_ip_def split: if_splits)
    qed
  qed
qed

lemma ParseIP_valid: "net_ParseIP s \<noteq> [] \<Longrightarrow> valid_ip (net_ParseIP s)"
proof -
  assume a: "net_ParseIP s \<noteq> []"
  show ?thesis
  proof (cases "dropWhile (\<lambda>c. c \<noteq> CHR ''.'' \<and> c \<noteq> CHR '':'' \<and> c \<noteq> CHR ''%'') s")
    case Nil
    with a show ?thesis by (simp add: net_ParseIP_def)
  next
    case (Cons c cs)
    show ?thesis
    proof (cases "c = CHR ''.''")
      case True
      with a Cons obtain f where f: "parseIPv4Fields s 0 0 [] = Some f"
        and r: "net_ParseIP s = v4InV6Prefix @ f"
        by (auto simp: net_ParseIP_def split: option.splits)
      from parseIPv4Fields_valid [OF f] have "length f = 4" "list_all (\<lambda>b. b < 256) f" by simp_all
      then show ?thesis by (simp add: r valid_ip_def v4InV6Prefix_def)
    next
      case False
      with a Cons obtain ip where "parseIPv6 s = Some ip" and "net_ParseIP s = ip"
        by (auto simp: net_ParseIP_def split: option.splits if_splits)
      then show ?thesis using parseIPv6_valid by simp
    qed
  qed
qed

subsection \<open>Formatting an address and reading it back\<close>

lemma bytes_of_v6u16:
  "even (length ip) \<Longrightarrow> list_all (\<lambda>b. b < 256) ip \<Longrightarrow> bytes_of (v6u16 ip) = ip"
  by (induction ip rule: v6u16.induct) (simp_all add: bytes_of_Cons)

lemma length_v6u16: "length (v6u16 ip) = length ip div 2"
  by (induction ip rule: v6u16.induct) simp_all

lemma v6u16_bound: "list_all (\<lambda>b. b < 256) ip \<Longrightarrow> \<forall>g\<in>set (v6u16 ip). g < 65536"
proof (induction ip rule: v6u16.induct)
  case (1 hi lo bs)
  then have "hi * 256 + lo < 65536" by simp
  with 1 show ?case by simp
qed simp_all

lemma joined_chars: "\<forall>g\<in>set gs. g < 65536 \<Longrightarrow> list_all (\<lambda>c. ishex c \<or> c = CHR '':'') (joined gs)"
proof (induction gs)
  case Nil
  then show ?case by (simp add: joined_def)
next
  case (Cons g gs)
  then have "list_all ishex (appendHex g)" by (simp add: appendHex_hex)
  then have "list_all (\<lambda>c. ishex c \<or> c = CHR '':'') (appendHex g)"
    by (simp add: list_all_iff)
  with Cons show ?case by (simp add: joined_Cons)
qed

lemma joined_colon: "length gs \<ge> 2 \<Longrightarrow> CHR '':'' \<in> set (joined gs)"
  by (cases gs; cases "tl gs") (auto simp: joined_Cons)

lemma string6_chars:
  assumes "length gs = 8" and "\<forall>g\<in>set gs. g < 65536"
  shows "list_all (\<lambda>c. ishex c \<or> c = CHR '':'') (string6 gs)" and "CHR '':'' \<in> set (string6 gs)"
proof -
  obtain zs ze where z: "zero_span gs = (zs, ze)" by (cases "zero_span gs")
  have t: "\<forall>g\<in>set (take zs gs). g < 65536" using assms(2) by (meson in_set_takeD)
  have d: "\<forall>g\<in>set (drop ze gs). g < 65536" using assms(2) by (meson in_set_dropD)
  show "list_all (\<lambda>c. ishex c \<or> c = CHR '':'') (string6 gs)"
    using joined_chars [OF assms(2)] joined_chars [OF t] joined_chars [OF d]
    by (simp add: string6_def z joined_def)
  show "CHR '':'' \<in> set (string6 gs)"
    using joined_colon [of gs] assms(1) by (simp add: string6_def z joined_def)
qed

lemma first_special_colon:
  assumes "list_all (\<lambda>c. ishex c \<or> c = CHR '':'') s" and "CHR '':'' \<in> set s"
  shows "\<exists>r. dropWhile (\<lambda>c. c \<noteq> CHR ''.'' \<and> c \<noteq> CHR '':'' \<and> c \<noteq> CHR ''%'') s = CHR '':'' # r"
  using assms
proof (induction s)
  case Nil
  then show ?case by simp
next
  case (Cons c s)
  show ?case
  proof (cases "c = CHR '':''")
    case True
    then show ?thesis by simp
  next
    case False
    with Cons.prems have "ishex c" by simp
    then have "c \<noteq> CHR ''.'' \<and> c \<noteq> CHR ''%''" by (auto simp: ishex_def isdigit_def)
    with False Cons show ?thesis by simp
  qed
qed

lemma ishex_not_percent: "ishex c \<Longrightarrow> c \<noteq> CHR ''%''"
  by (auto simp: ishex_def isdigit_def)

lemma ParseIP_string6:
  assumes "length gs = 8" and "\<forall>g\<in>set gs. g < 65536"
  shows "net_ParseIP (string6 gs) = bytes_of gs"
proof -
  from string6_chars [OF assms]
  have c: "list_all (\<lambda>c. ishex c \<or> c = CHR '':'') (string6 gs)" and m: "CHR '':'' \<in> set (string6 gs)" .
  from first_special_colon [OF c m] obtain r where
    r: "dropWhile (\<lambda>c. c \<noteq> CHR ''.'' \<and> c \<noteq> CHR '':'' \<and> c \<noteq> CHR ''%'') (string6 gs) = CHR '':'' # r" ..
  have "CHR ''%'' \<notin> set (string6 gs)"
    using c ishex_not_percent by (auto simp: list_all_iff)
  then show ?thesis
    by (simp add: net_ParseIP_def r parseIPv6_string6 [OF assms])
qed

lemma list_of_four: "length xs = 4 \<Longrightarrow> \<exists>a b c d. xs = [a, b, c, d]"
  by (auto simp: length_Suc_conv numeral_eq_Suc)

lemma IP_String_cases:
  assumes "valid_ip ip"
  obtains a b c d where "ip = v4InV6Prefix @ [a, b, c, d]" "IP_String ip = dotted a b c d"
      "a \<le> 255" "b \<le> 255" "c \<le> 255" "d \<le> 255"
  | "IP_String ip = string6 (v6u16 ip)"
proof (cases "take 12 ip = v4InV6Prefix")
  case True
  from assms have l: "length ip = 16" and v: "list_all (\<lambda>b. b < 256) ip" by (simp_all add: valid_ip_def)
  from l have "length (drop 12 ip) = 4" by simp
  from list_of_four [OF this] obtain a b c d where d: "drop 12 ip = [a, b, c, d]"
    by blast
  have ip: "ip = v4InV6Prefix @ [a, b, c, d]"
    using append_take_drop_id [of 12 ip] True d by simp
  have "list_all (\<lambda>b. b < 256) [a, b, c, d]" using v by (subst (asm) ip) simp
  then have "a \<le> 255" "b \<le> 255" "c \<le> 255" "d \<le> 255" by simp_all
  moreover have "IP_String ip = dotted a b c d"
    using l True d by (simp add: IP_String_def To4_def dotted_def)
  ultimately show ?thesis using that(1) ip by blast
next
  case False
  from assms have l: "length ip = 16" by (simp add: valid_ip_def)
  with False have "IP_String ip = string6 (v6u16 ip)" by (simp add: IP_String_def To4_def)
  then show ?thesis by (rule that(2))
qed

lemma ParseIP_IP_String:
  assumes "valid_ip ip"
  shows "net_ParseIP (IP_String ip) = ip"
  using assms
proof (cases rule: IP_String_cases)
  case (1 a b c d)
  then show ?thesis by (simp add: ParseIP_dotted)
next
  case 2
  from assms have l: "length ip = 16" and b: "list_all (\<lambda>b. b < 256) ip" by (simp_all add: valid_ip_def)
  have "net_ParseIP (string6 (v6u16 ip)) = bytes_of (v6u16 ip)"
    using l by (intro ParseIP_string6 v6u16_bound [OF b]) (simp add: length_v6u16)
  also have "\<dots> = ip" using l by (intro bytes_of_v6u16 b) simp
  finally show ?thesis by (simp add: 2)
qed

section \<open>Descriptors as text\<close>

subsection \<open>The URL of a formatted descriptor\<close>

lemma urlsafe_not_delimiter:
  "urlsafe c \<Longrightarrow> c \<noteq> CHR ''#'' \<and> c \<noteq> CHR ''?'' \<and> c \<noteq> CHR ''/'' \<and> c \<noteq> CHR ''@'' \<and> c \<noteq> CHR ''%''"
  by (auto simp: urlsafe_def ishex_def isdigit_def)

lemma urlsafe_not_ctl: "urlsafe c \<Longrightarrow> \<not> ((of_char c :: nat) < 32 \<or> (of_char c :: nat) = 127)"
  by (auto simp: urlsafe_def ishex_def isdigit_def)

lemma ishex_alnum: "ishex c \<Longrightarrow> isalpha c \<or> isdigit c"
  by (auto simp: ishex_def isalpha_def)

lemma urlsafe_not_escaped: "urlsafe c \<Longrightarrow> \<not> shouldEscape_host c"
  using ishex_alnum [of c] by (auto simp: urlsafe_def shouldEscape_host_def)

lemma unescape_host_safe: "list_all urlsafe s \<Longrightarrow> unescape_host zone s = Some s"
proof (induction s)
  case Nil
  then show ?case by simp
next
  case (Cons c s)
  then have "c \<noteq> CHR ''%''" "\<not> shouldEscape_host c"
    using urlsafe_not_delimiter [of c] urlsafe_not_escaped [of c] by simp_all
  with Cons show ?case by simp
qed

lemma strings_Index_absent: "c \<notin> set s \<Longrightarrow> strings_Index s (c # t) < 0"
  by (induction s) (auto simp: Let_def)

lemma after_last_append:
  assumes "c \<notin> set p"
  shows "after_last c (x @ c # p) = p"
proof -
  have "takeWhile (\<lambda>y. y \<noteq> c) (rev p @ c # rev x) = rev p"
    using assms by (subst takeWhile_append2) auto
  then show ?thesis by (simp add: after_last_def)
qed

lemma before_last_append:
  assumes "c \<notin> set p"
  shows "before_last c (x @ c # p) = x"
proof -
  have "dropWhile (\<lambda>y. y \<noteq> c) (rev p @ c # rev x) = c # rev x"
    using assms by (subst dropWhile_append2) auto
  then show ?thesis by (simp add: before_last_def)
qed

lemma isdigit_props: "isdigit c \<Longrightarrow> urlsafe c \<and> c \<noteq> CHR '':'' \<and> c \<noteq> CHR '']''"
  by (auto simp: urlsafe_def ishex_def isdigit_def)

lemma digits_no_colon: "list_all isdigit p \<Longrightarrow> CHR '':'' \<notin> set p \<and> CHR '']'' \<notin> set p \<and> list_all urlsafe p"
  using isdigit_props by (auto simp: list_all_iff)

lemma hostsafe_urlsafe: "hostsafe c \<Longrightarrow> urlsafe c \<and> c \<noteq> CHR ''['' \<and> c \<noteq> CHR '']''"
  by (auto simp: hostsafe_def urlsafe_def ishex_def isdigit_def)

lemma hostsafe_list: "list_all hostsafe h \<Longrightarrow> list_all urlsafe h \<and> CHR ''['' \<notin> set h \<and> CHR '']'' \<notin> set h"
  using hostsafe_urlsafe by (auto simp: list_all_iff)

lemma JoinHostPort_safe:
  "list_all hostsafe h \<Longrightarrow> list_all isdigit p \<Longrightarrow> list_all urlsafe (net_JoinHostPort h p)"
  using hostsafe_list [of h] digits_no_colon [of p]
  by (simp add: net_JoinHostPort_def urlsafe_def)

lemma splitHostPort_JoinHostPort:
  assumes h: "list_all hostsafe h" and p: "list_all isdigit p"
  shows "splitHostPort (net_JoinHostPort h p) = (h, p)"
proof -
  from hostsafe_list [OF h] have hb: "CHR ''['' \<notin> set h" "CHR '']'' \<notin> set h" by simp_all
  from digits_no_colon [OF p] have pc: "CHR '':'' \<notin> set p" by simp
  show ?thesis
  proof (cases "CHR '':'' \<in> set h")
    case False
    have "\<not> prefix ''['' h" using hb(1) by (cases h) auto
    then show ?thesis
      using False p pc
      by (simp add: net_JoinHostPort_def splitHostPort_def after_last_append before_last_append
          validOptionalPort_def)
  next
    case True
    have j: "net_JoinHostPort h p = (CHR ''['' # h @ '']'') @ CHR '':'' # p"
      using True by (simp add: net_JoinHostPort_def)
    have al: "after_last (CHR '':'') ((CHR ''['' # h @ '']'') @ CHR '':'' # p) = p"
      by (rule after_last_append [OF pc])
    have bl: "before_last (CHR '':'') ((CHR ''['' # h @ '']'') @ CHR '':'' # p) = CHR ''['' # h @ '']''"
      by (rule before_last_append [OF pc])
    have mem: "CHR '':'' \<in> set ((CHR ''['' # h @ '']'') @ CHR '':'' # p)" by simp
    have vp: "validOptionalPort (CHR '':'' # p)" using p by (simp add: validOptionalPort_def)
    have sf: "suffix '']'' (CHR ''['' # h @ '']'')"
      using suffixI [of "CHR ''['' # h @ '']''" "CHR ''['' # h" "'']''"] by simp
    show ?thesis
      unfolding j splitHostPort_def al bl Let_def
      using mem vp sf by (simp add: butlast_append)
  qed
qed

lemma parseHost_JoinHostPort:
  assumes h: "list_all hostsafe h" and p: "list_all isdigit p"
  shows "parseHost (net_JoinHostPort h p) = Some (net_JoinHostPort h p)"
proof -
  from hostsafe_list [OF h] have hb: "CHR ''['' \<notin> set h" "CHR '']'' \<notin> set h" "list_all urlsafe h"
    by simp_all
  from digits_no_colon [OF p] have pc: "CHR '':'' \<notin> set p" "CHR '']'' \<notin> set p" by simp_all
  have u: "unescape_host False (net_JoinHostPort h p) = Some (net_JoinHostPort h p)"
    by (rule unescape_host_safe [OF JoinHostPort_safe [OF h p]])
  show ?thesis
  proof (cases "CHR '':'' \<in> set h")
    case False
    have np: "\<not> prefix ''['' (h @ CHR '':'' # p)" using hb(1) by (cases h) auto
    have j: "net_JoinHostPort h p = h @ CHR '':'' # p" using False by (simp add: net_JoinHostPort_def)
    show ?thesis
      using u np p pc
      by (simp add: j parseHost_def after_last_append validOptionalPort_def)
  next
    case True
    have j: "net_JoinHostPort h p = (CHR ''['' # h) @ CHR '']'' # (CHR '':'' # p)"
      using True by (simp add: net_JoinHostPort_def)
    have al: "after_last (CHR '']'') ((CHR ''['' # h) @ CHR '']'' # (CHR '':'' # p)) = CHR '':'' # p"
      using pc by (intro after_last_append) simp
    have bl: "before_last (CHR '']'') ((CHR ''['' # h) @ CHR '']'' # (CHR '':'' # p)) = CHR ''['' # h"
      using pc by (intro before_last_append) simp
    have "CHR ''%'' \<notin> set (CHR ''['' # h)"
      using hb(3) urlsafe_not_delimiter by (auto simp: list_all_iff)
    from strings_Index_absent [OF this, of "''25''"]
    have z: "\<not> 0 \<le> strings_Index (CHR ''['' # h) ''%25''" by (simp only: not_le)
    have pre: "prefix ''['' ((CHR ''['' # h) @ CHR '']'' # (CHR '':'' # p))" by simp
    have mem: "CHR '']'' \<in> set ((CHR ''['' # h) @ CHR '']'' # (CHR '':'' # p))" by simp
    have vp: "validOptionalPort (CHR '':'' # p)" using p by (simp add: validOptionalPort_def)
    show ?thesis
      unfolding j parseHost_def al bl Let_def
      using u z pre mem vp by (simp add: j)
  qed
qed

lemma cut_before_absent: "c \<notin> set s \<Longrightarrow> cut_before c s = s"
  by (auto simp: cut_before_def takeWhile_eq_all_conv)

lemma dropWhile_absent: "c \<notin> set s \<Longrightarrow> dropWhile (\<lambda>x. x \<noteq> c) s = []"
  by auto

lemma cut_after_absent: "c \<notin> set s \<Longrightarrow> cut_after c s = []"
  by (simp add: cut_after_def dropWhile_absent)

lemma suffix_question: "CHR ''?'' \<notin> set s \<Longrightarrow> \<not> suffix ''?'' s"
  by (auto simp: suffix_def)

lemma getScheme_udp: "getScheme (''udp://'' @ s) = Some (''udp'', ''//'' @ s)"
  by (simp add: getScheme_def isalpha_def isdigit_def)

lemma url_Parse_udp:
  assumes safe: "list_all urlsafe hp" and host: "parseHost hp = Some hp"
  shows "url_Parse (''udp://'' @ hp) = Some \<lparr>Scheme = ''udp'', Host = hp\<rparr>"
proof -
  from safe urlsafe_not_delimiter
  have d: "CHR ''#'' \<notin> set hp" "CHR ''?'' \<notin> set hp" "CHR ''/'' \<notin> set hp" "CHR ''@'' \<notin> set hp"
    by (auto simp: list_all_iff)
  have ctl: "\<not> stringContainsCTLByte (''udp://'' @ hp)"
    using safe urlsafe_not_ctl by (auto simp: stringContainsCTLByte_def list_all_iff list_ex_iff)
  have q: "CHR ''?'' \<notin> set (''//'' @ hp)" using d by simp
  have rest: "(if suffix ''?'' (''//'' @ hp) \<and> count_list (''//'' @ hp) (CHR ''?'') = 1
       then butlast (''//'' @ hp) else cut_before (CHR ''?'') (''//'' @ hp)) = ''//'' @ hp"
    using suffix_question [OF q] cut_before_absent [OF q] by simp
  have auth: "parseAuthority hp = Some hp"
    using d host by (simp add: parseAuthority_def)
  have p: "url_parse (''udp://'' @ hp) = Some \<lparr>Scheme = ''udp'', Host = hp\<rparr>"
    unfolding url_parse_def getScheme_udp option.case prod.case Let_def rest
    using ctl auth d by (simp add: tolower_def cut_before_absent dropWhile_absent)
  have h: "CHR ''#'' \<notin> set (''udp://'' @ hp)" using d by simp
  show ?thesis
    unfolding url_Parse_def cut_before_absent [OF h] cut_after_absent [OF h] p by simp
qed

subsection \<open>What ParseDnsServer returns\<close>

lemma Port_of_digits: "list_all isdigit (Port_of u)"
  by (auto simp: Port_of_def splitHostPort_def validOptionalPort_def Let_def)

lemma ParseDnsServer_result:
  assumes "ParseDnsServer v = Inr s"
  shows "Network s = ''udp'' \<and> valid_ip (IP s) \<and> 0 \<le> Port s \<and> Port s \<le> 2 ^ 63 - 1"
proof -
  define raw where "raw = (if strings_Index v ''://'' < 0 then ''udp://'' @ v else v)"
  from assms obtain u where u: "url_Parse raw = Some u"
    by (auto simp: ParseDnsServer_def raw_def Let_def split: option.splits)
  with assms have sch: "Scheme u = ''udp''" and ip: "net_ParseIP (Hostname u) \<noteq> []"
    by (auto simp: ParseDnsServer_def raw_def Let_def split: option.splits if_splits)
  from assms u sch ip have n: "Network s = ''udp''" and i: "IP s = net_ParseIP (Hostname u)"
    by (auto simp: ParseDnsServer_def raw_def Let_def split: option.splits if_splits)
  have port: "0 \<le> Port s \<and> Port s \<le> 2 ^ 63 - 1"
  proof (cases "Port_of u = []")
    case True
    with assms u sch ip have "Port s = 53"
      by (auto simp: ParseDnsServer_def raw_def Let_def split: option.splits if_splits)
    then show ?thesis by simp
  next
    case False
    with assms u sch ip have "strconv_Atoi (Port_of u) = Some (Port s)"
      by (auto simp: ParseDnsServer_def raw_def Let_def split: option.splits if_splits)
    then show ?thesis
      using Atoi_digits [OF False Port_of_digits] by (auto split: if_splits)
  qed
  show ?thesis using n i port ParseIP_valid [OF ip] by simp
qed

lemma dotted_hostsafe:
  assumes "a \<le> 255" "b \<le> 255" "c \<le> 255" "d \<le> 255"
  shows "list_all hostsafe (dotted a b c d)"
proof -
  have "\<And>x. x \<le> 255 \<Longrightarrow> list_all hostsafe (appendDecimal x)"
    using appendDecimal_digits by (fastforce simp: list_all_iff hostsafe_def ishex_def)
  with assms show ?thesis by (simp add: dotted_def hostsafe_def)
qed

lemma IP_String_hostsafe:
  assumes "valid_ip ip"
  shows "list_all hostsafe (IP_String ip)"
  using assms
proof (cases rule: IP_String_cases)
  case (1 a b c d)
  then show ?thesis by (simp add: dotted_hostsafe)
next
  case 2
  from assms have l: "length ip = 16" and b: "list_all (\<lambda>b. b < 256) ip" by (simp_all add: valid_ip_def)
  have "list_all (\<lambda>c. ishex c \<or> c = CHR '':'') (string6 (v6u16 ip))"
    using l by (intro string6_chars v6u16_bound [OF b]) (simp add: length_v6u16)
  then show ?thesis by (auto simp: 2 list_all_iff hostsafe_def)
qed


section \<open>The server parser\<close>

lemma ParseDnsServer_with_scheme:
  "0 \<le> strings_Index v ''://'' \<Longrightarrow> ParseDnsServer v =
          (case url_Parse v of
             None \<Rightarrow> Inl (UrlParseError v)
           | Some u \<Rightarrow>
               if Scheme u \<noteq> ''udp'' then Inl (NotSupport v (Scheme u))
               else if net_ParseIP (Hostname u) = [] then Inl (IpInvalid v (Hostname u))
               else if Port_of u = [] then Inr (udp_server (net_ParseIP (Hostname u)) 53)
               else (case strconv_Atoi (Port_of u) of
                       None \<Rightarrow> Inl (PortInvalid v (Port_of u))
                     | Some p \<Rightarrow> Inr (udp_server (net_ParseIP (Hostname u)) p)))"
  by (simp add: ParseDnsServer_def Let_def udp_server_def split: option.splits)

lemma Parse_huge_port:
  "ParseDnsServer ''udp://1.1.1.1:99999999999999999999''
     = Inl (PortInvalid ''udp://1.1.1.1:99999999999999999999'' ''99999999999999999999'')"
proof -
  have u: "url_Parse ''udp://1.1.1.1:99999999999999999999''
      = Some \<lparr>Scheme = ''udp'', Host = ''1.1.1.1:99999999999999999999''\<rparr>"
    by code_simp
  have h: "Hostname \<lparr>Scheme = ''udp'', Host = ''1.1.1.1:99999999999999999999''\<rparr> = ''1.1.1.1''"
    "Port_of \<lparr>Scheme = ''udp'', Host = ''1.1.1.1:99999999999999999999''\<rparr> = ''99999999999999999999''"
    by code_simp+
  have d: "list_all isdigit ''99999999999999999999''" by (simp add: isdigit_def)
  have v: "dec_value ''99999999999999999999'' = 99999999999999999999" by (simp add: dec_value_def)
  have a: "strconv_Atoi ''99999999999999999999'' = None"
    using Atoi_digits [OF _ d] by (simp add: v)
  have i: "0 \<le> strings_Index ''udp://1.1.1.1:99999999999999999999'' ''://''" by simp
  show ?thesis
    by (simp add: ParseDnsServer_with_scheme [OF i] u h a ParseIP_1111 v4_def)
qed

text \<open>
  Claim C8. \<^verbatim>\<open>ParseDnsServer\<close> on every input \<open>v\<close>: without \<^verbatim>\<open>://\<close> in it, \<open>v\<close> is
  parsed as \<^verbatim>\<open>udp://v\<close>; otherwise the result is decided in this order: the URL must
  parse (a port that is not a number is refused there), the scheme must be \<^verbatim>\<open>udp\<close>, the
  host name must be an IP literal, and the port is 53 when there is none and else must be
  read by \<^verbatim>\<open>Atoi\<close>. Every descriptor returned has the network \<^verbatim>\<open>udp\<close>, a 16-byte
  address and a port that is not negative. The four rows of the parser table follow, and two ports that are
  not valid integers (letters, and digits beyond the range of \<^verbatim>\<open>int\<close>).
\<close>

theorem ParseDnsServer_contract:
  "(strings_Index v ''://'' < 0 \<longrightarrow> ParseDnsServer v = ParseDnsServer (''udp://'' @ v))
   \<and> (0 \<le> strings_Index v ''://'' \<longrightarrow>
        ParseDnsServer v =
          (case url_Parse v of
             None \<Rightarrow> Inl (UrlParseError v)
           | Some u \<Rightarrow>
               if Scheme u \<noteq> ''udp'' then Inl (NotSupport v (Scheme u))
               else if net_ParseIP (Hostname u) = [] then Inl (IpInvalid v (Hostname u))
               else if Port_of u = [] then Inr (udp_server (net_ParseIP (Hostname u)) 53)
               else (case strconv_Atoi (Port_of u) of
                       None \<Rightarrow> Inl (PortInvalid v (Port_of u))
                     | Some p \<Rightarrow> Inr (udp_server (net_ParseIP (Hostname u)) p))))
   \<and> (\<forall>s. ParseDnsServer v = Inr s \<longrightarrow> Network s = ''udp'' \<and> length (IP s) = 16 \<and> 0 \<le> Port s)
   \<and> ParseDnsServer ''8.8.8.8'' = Inr (udp_server (v4 8 8 8 8) 53)
   \<and> ParseDnsServer ''udp://1.1.1.1:5353'' = Inr (udp_server (v4 1 1 1 1) 5353)
   \<and> ParseDnsServer ''tcp://1.1.1.1'' = Inl (NotSupport ''tcp://1.1.1.1'' ''tcp'')
   \<and> ParseDnsServer ''udp://not-an-ip'' = Inl (IpInvalid ''udp://not-an-ip'' ''not-an-ip'')
   \<and> ParseDnsServer ''udp://1.1.1.1:dns'' = Inl (UrlParseError ''udp://1.1.1.1:dns'')
   \<and> ParseDnsServer ''udp://1.1.1.1:99999999999999999999''
       = Inl (PortInvalid ''udp://1.1.1.1:99999999999999999999'' ''99999999999999999999'')"
proof -
  have 1: "strings_Index v ''://'' < 0 \<Longrightarrow> ParseDnsServer v = ParseDnsServer (''udp://'' @ v)"
    using Index_udp [of v] by (simp add: ParseDnsServer_def Let_def)
  note 2 = ParseDnsServer_with_scheme [of v]
  have 3: "\<forall>s. ParseDnsServer v = Inr s \<longrightarrow> Network s = ''udp'' \<and> length (IP s) = 16 \<and> 0 \<le> Port s"
    using ParseDnsServer_result [of v] by (auto simp: valid_ip_def)
  show ?thesis
    using 1 2 3
    by (simp add: Parse_8888 Parse_udp_1111_5353 Parse_tcp Parse_not_an_ip Parse_bad_port
        Parse_huge_port)
qed

theorem ParseDnsServer_contract_witness:
  "strings_Index ''8.8.8.8'' ''://'' < 0
   \<and> ParseDnsServer ''8.8.8.8'' = ParseDnsServer ''udp://8.8.8.8''
   \<and> 0 \<le> strings_Index ''udp://1.1.1.1:5353'' ''://''
   \<and> url_Parse ''udp://1.1.1.1:5353'' = Some \<lparr>Scheme = ''udp'', Host = ''1.1.1.1:5353''\<rparr>
   \<and> ParseDnsServer ''udp://1.1.1.1:5353'' = Inr (udp_server (v4 1 1 1 1) 5353)"
proof -
  have a: "strings_Index ''8.8.8.8'' ''://'' < 0" by simp
  have b: "0 \<le> strings_Index ''udp://1.1.1.1:5353'' ''://''" by simp
  have u: "url_Parse ''udp://1.1.1.1:5353'' = Some \<lparr>Scheme = ''udp'', Host = ''1.1.1.1:5353''\<rparr>"
    by code_simp
  from ParseDnsServer_contract [of "''8.8.8.8''"] a
  have c: "ParseDnsServer ''8.8.8.8'' = ParseDnsServer (''udp://'' @ ''8.8.8.8'')"
    by blast
  from ParseDnsServer_contract [of "''udp://1.1.1.1:5353''"]
  have d: "ParseDnsServer ''udp://1.1.1.1:5353'' = Inr (udp_server (v4 1 1 1 1) 5353)"
    by blast
  show ?thesis
    using a b u c d by simp
qed

lemma upt_8: "[0..<8] = [0, 1, 2, 3, 4, 5, 6, 7]"
  by (simp add: upt_rec)

lemma replicate_10: "replicate 10 (0::nat) = [0, 0, 0, 0, 0, 0, 0, 0, 0, 0]"
  by (simp add: numeral_eq_Suc)

lemma String_v6_example:
  "String (udp_server [42, 0, 13, 184, 0, 0, 0, 0, 0, 0, 0, 0, 0, 0, 0, 83] 5353)
     = ''udp://[2a00:db8::53]:5353''"
proof -
  have "IP_String [42, 0, 13, 184, 0, 0, 0, 0, 0, 0, 0, 0, 0, 0, 0, 83] = ''2a00:db8::53''"
    by (simp add: IP_String_def To4_def v4InV6Prefix_def string6_def zero_span_def upt_8
        appendHex_def digits_def Let_def char_of_eq_iff)
  moreover have "strconv_Itoa 5353 = ''5353''"
    by (simp add: strconv_Itoa_def uitoa.simps digits_def char_of_eq_iff)
  ultimately show ?thesis
    by (simp add: String_def Addr_def udp_server_def net_JoinHostPort_def)
qed

lemma Parse_v6_example:
  "ParseDnsServer ''[2a00:db8::53]:5353''
     = Inr (udp_server [42, 0, 13, 184, 0, 0, 0, 0, 0, 0, 0, 0, 0, 0, 0, 83] 5353)"
proof -
  have u: "url_Parse ''udp://[2a00:db8::53]:5353''
      = Some \<lparr>Scheme = ''udp'', Host = ''[2a00:db8::53]:5353''\<rparr>"
    by code_simp
  have h: "Hostname \<lparr>Scheme = ''udp'', Host = ''[2a00:db8::53]:5353''\<rparr> = ''2a00:db8::53''"
    "Port_of \<lparr>Scheme = ''udp'', Host = ''[2a00:db8::53]:5353''\<rparr> = ''5353''"
    by code_simp+
  have ip: "net_ParseIP ''2a00:db8::53'' = [42, 0, 13, 184, 0, 0, 0, 0, 0, 0, 0, 0, 0, 0, 0, 83]"
    by (simp add: net_ParseIP_def parseIPv6_def parseIPv6_loop.simps ishex_def isdigit_def
        unhex_def Let_def replicate_10)
  have a: "strconv_Atoi ''5353'' = Some 5353" by code_simp
  have i: "strings_Index ''[2a00:db8::53]:5353'' ''://'' < 0" by simp
  show ?thesis
    using i by (simp add: ParseDnsServer_def u h ip a udp_server_def)
qed

text \<open>
  Claim C10. Every descriptor that \<^verbatim>\<open>ParseDnsServer\<close> returns is read back from its
  canonical text: parsing \<^verbatim>\<open>String()\<close> of it succeeds and gives the same network, the
  same address bytes and the same port.
\<close>

theorem ParseDnsServer_String_roundtrip:
  assumes "ParseDnsServer v = Inr s"
  shows "ParseDnsServer (String s) = Inr s"
proof -
  from ParseDnsServer_result [OF assms]
  have n: "Network s = ''udp''" and ip: "valid_ip (IP s)"
    and p: "0 \<le> Port s" "Port s \<le> 2 ^ 63 - 1"
    by simp_all
  define h where "h = IP_String (IP s)"
  define ps where "ps = strconv_Itoa (Port s)"
  define hp where "hp = net_JoinHostPort h ps"
  define raw where "raw = ''udp://'' @ hp"
  have hs: "list_all hostsafe h" unfolding h_def by (rule IP_String_hostsafe [OF ip])
  have pd: "list_all isdigit ps" "ps \<noteq> []" using Itoa_digits [OF p(1)] by (simp_all add: ps_def)
  have str: "String s = raw" by (simp add: String_def Addr_def n raw_def hp_def h_def ps_def)
  have u: "url_Parse raw = Some \<lparr>Scheme = ''udp'', Host = hp\<rparr>"
    unfolding raw_def hp_def
    by (rule url_Parse_udp [OF JoinHostPort_safe [OF hs pd(1)] parseHost_JoinHostPort [OF hs pd(1)]])
  have sp: "Hostname \<lparr>Scheme = ''udp'', Host = hp\<rparr> = h" "Port_of \<lparr>Scheme = ''udp'', Host = hp\<rparr> = ps"
    by (simp_all add: Hostname_def Port_of_def hp_def splitHostPort_JoinHostPort [OF hs pd(1)])
  have rt: "net_ParseIP h = IP s" unfolding h_def by (rule ParseIP_IP_String [OF ip])
  have len: "IP s \<noteq> []" using ip by (auto simp: valid_ip_def)
  have atoi: "strconv_Atoi ps = Some (Port s)" unfolding ps_def by (rule Atoi_Itoa [OF p])
  have idx: "0 \<le> strings_Index raw ''://''" unfolding raw_def by (rule Index_udp)
  have "ParseDnsServer raw = Inr (udp_server (IP s) (Port s))"
    by (simp add: ParseDnsServer_with_scheme [OF idx] u sp rt atoi len pd(2))
  then show ?thesis using n by (simp add: str udp_server_def)
qed

theorem ParseDnsServer_String_roundtrip_witness:
  "ParseDnsServer ''[2a00:db8::53]:5353''
     = Inr (udp_server [42, 0, 13, 184, 0, 0, 0, 0, 0, 0, 0, 0, 0, 0, 0, 83] 5353)
   \<and> String (udp_server [42, 0, 13, 184, 0, 0, 0, 0, 0, 0, 0, 0, 0, 0, 0, 83] 5353)
     = ''udp://[2a00:db8::53]:5353''
   \<and> ParseDnsServer ''udp://[2a00:db8::53]:5353''
     = Inr (udp_server [42, 0, 13, 184, 0, 0, 0, 0, 0, 0, 0, 0, 0, 0, 0, 83] 5353)"
  using ParseDnsServer_String_roundtrip [OF Parse_v6_example] Parse_v6_example String_v6_example
  by simp

end
